theory Spec2Isabelle
  imports Main "HOL-Library.AList" "HOL-Library.Multiset"
begin

section \<open>The workflow execution engine (src/services/executionEngine.js)\<close>

text \<open>
  A shallow embedding of the execution engine.  Every JavaScript function of the engine
  is one HOL function of the same name.  Effects are explicit:
  \<^item> the console, the system clock and the rows sent to the \<open>executions\<close> table are
    the fields of the record \<open>world\<close>, passed in and returned;
  \<^item> an exception is a value of type \<open>error\<close>;
  \<^item> the recursion of \<open>executeNode\<close>, which nothing bounds in the source, takes
    fuel: the result \<open>None\<close> says that the call did not return within that depth.
\<close>

subsection \<open>Data model\<close>

text \<open>JSON values, as the store returns them in a node's \<open>config\<close> column.  No engine
  code computes with a number, so numbers are kept as integers.\<close>

datatype json =
    JNull
  | JBool bool
  | JNum int
  | JStr string
  | JArr "json list"
  | JObj "(string \<times> json) list"

text \<open>Rows of the tables \<open>workflows\<close>, \<open>nodes\<close> and \<open>edges\<close>, with the columns the engine
  reads.  Identifiers are UUID strings.  \<open>config\<close> is a JSON object (\<open>createNode\<close> stores
  \<open>config || {}\<close>), kept as its list of properties.\<close>

record workflow =
  workflow_id :: string
  enabled :: bool

record node =
  node_id :: string
  node_type :: string
  label :: string
  config :: "(string \<times> json) list"

record edge =
  source_node_id :: string
  target_node_id :: string

text \<open>Property access \<open>config.key\<close>: \<open>None\<close> is JavaScript's \<open>undefined\<close>.\<close>

definition property :: "(string \<times> json) list \<Rightarrow> string \<Rightarrow> json option" where
  "property cfg key = map_of cfg key"

text \<open>Truthiness, and the operator \<open>a || b\<close> with a string literal on the right.\<close>

fun truthy :: "json \<Rightarrow> bool" where
  "truthy JNull = False"
| "truthy (JBool b) = b"
| "truthy (JNum n) = (n \<noteq> 0)"
| "truthy (JStr s) = (s \<noteq> [])"
| "truthy (JArr xs) = True"
| "truthy (JObj ps) = True"

fun js_or :: "json option \<Rightarrow> string \<Rightarrow> json" where
  "js_or None d = JStr d"
| "js_or (Some v) d = (if truthy v then v else JStr d)"

text \<open>A \<open>Date\<close> object, by its time value.\<close>

datatype date = Date int

text \<open>The payloads of the transform handlers \<open>filterData\<close>, \<open>combineData\<close> and of the
  default branch hold the object \<open>executionData\<close> itself, not a copy of it.  A run has
  one such object, so the reference to it is a constant.\<close>

datatype context_ref = ExecutionData

datatype transform_result =
    Summary string                  \<comment> \<open>\<open>{ summary: JSON.stringify(executionData) }\<close>\<close>
  | Filtered context_ref            \<comment> \<open>\<open>{ filtered: executionData }\<close>\<close>
  | Combined context_ref            \<comment> \<open>\<open>{ combined: executionData }\<close>\<close>
  | Transformed context_ref         \<comment> \<open>\<open>{ transformed: executionData }\<close>\<close>

datatype action_result =
    EmailResult bool "json option"  \<comment> \<open>\<open>{ sent, to }\<close>\<close>
  | SMSResult bool "json option"    \<comment> \<open>\<open>{ sent, phone }\<close>\<close>
  | PostResult bool "json option"   \<comment> \<open>\<open>{ posted, platform }\<close>\<close>
  | ActionMessage string            \<comment> \<open>\<open>{ message }\<close>\<close>

text \<open>The result envelopes; the constructor is the envelope's \<open>type\<close> field, the
  arguments are its other fields in the order of the source.\<close>

datatype envelope =
    TriggerEnvelope date "(string \<times> json) list"
      \<comment> \<open>\<open>{ type: 'trigger', triggeredAt, config }\<close>\<close>
  | DataEnvelope "json option" json date
      \<comment> \<open>\<open>{ type: 'data', source, data, fetchedAt }\<close>\<close>
  | TransformEnvelope "json option" transform_result date
      \<comment> \<open>\<open>{ type: 'transform', transformType, result, transformedAt }\<close>\<close>
  | ActionEnvelope "json option" action_result date
      \<comment> \<open>\<open>{ type: 'action', actionType, result, actionTime }\<close>\<close>

text \<open>The object \<open>executionData\<close>: its properties in insertion order (the keys are
  UUID strings, never array indices, so this is the order in which JavaScript
  enumerates them).  The assignment \<open>executionData[k] = v\<close> is \<open>AList.update k v\<close>, which
  replaces the value of an existing key in place and appends a new key.\<close>

type_synonym execution_context = "(string \<times> envelope) list"

text \<open>Exceptions.  \<open>Error m\<close> is \<open>new Error(m)\<close>; a \<open>TypeError\<close> is raised by the
  language itself, and what stands for its message is the operation that failed.\<close>

datatype fault =
    ForEachOfNull          \<comment> \<open>\<open>edges.forEach\<close> with \<open>edges\<close> null\<close>
  | PushOfUndefined        \<comment> \<open>\<open>map[k].push\<close> with no property \<open>k\<close>\<close>
  | CircularStructure      \<comment> \<open>\<open>JSON.stringify\<close> of an object that contains itself\<close>

datatype error =
    Error string
  | TypeError fault

subsection \<open>Console, clock and store\<close>

datatype log_line =
    Starting string                       \<comment> \<open>Starting execution of workflow: id\<close>
  | Completed string                      \<comment> \<open>Workflow execution completed: id\<close>
  | ExecutionFailed error                 \<comment> \<open>Workflow execution failed: message\<close>
  | ExecutingNode string string           \<comment> \<open>Executing node: label (node_type)\<close>
  | ErrorExecutingNode string error       \<comment> \<open>Error executing node id: message\<close>
  | TriggerLine json                      \<comment> \<open>Trigger: config.type || 'scheduled'\<close>
  | FetchingData json                     \<comment> \<open>Fetching data: config.source || 'unknown'\<close>
  | TransformingData json                 \<comment> \<open>Transforming data: config.type || 'unknown'\<close>
  | ActionLine json                       \<comment> \<open>Action: config.type || 'unknown'\<close>
  | SendingEmail "json option"            \<comment> \<open>Sending email to: config.to\<close>
  | SendingSMS "json option"              \<comment> \<open>Sending SMS to: config.phone\<close>
  | PostingTo "json option"               \<comment> \<open>Posting to: config.platform\<close>
  | FailedToLog string                    \<comment> \<open>Failed to log execution: message\<close>

text \<open>A row sent to the table \<open>executions\<close> by \<open>logExecution\<close>.\<close>

record execution_record =
  execution_id :: string
  of_workflow :: string
  status :: string
  error_message :: "error option"
  execution_data :: "execution_context option"
  started_at :: date
  ended_at :: date

record world =
  clock :: nat                            \<comment> \<open>how many times the clock has been read\<close>
  console :: "log_line list"
  inserted :: "execution_record list"     \<comment> \<open>the rows passed to \<open>insert\<close>, in order\<close>

text \<open>What the engine takes from outside: the clock (\<open>now k\<close> is the value of its
  \<open>k\<close>-th reading), the library functions \<open>uuidv4\<close> and \<open>JSON.stringify\<close> (on an
  object without a cycle), and the answers of the store.  A query answers with
  \<open>{ data, error }\<close>; \<open>data\<close> is null when the query failed.\<close>

record host =
  now :: "nat \<Rightarrow> int"
  uuidv4 :: string
  stringify :: "execution_context \<Rightarrow> string"
  select_workflow :: "string \<Rightarrow> workflow option \<times> string option"
  select_nodes :: "string \<Rightarrow> node list option"
  select_edges :: "string \<Rightarrow> edge list option"
  insert_error :: "execution_record \<Rightarrow> string option"

definition new_Date :: "host \<Rightarrow> world \<Rightarrow> date \<times> world" where
  "new_Date h w = (Date (now h (clock w)), w\<lparr>clock := Suc (clock w)\<rparr>)"

definition console_log :: "log_line \<Rightarrow> world \<Rightarrow> world" where
  "console_log l w = w\<lparr>console := console w @ [l]\<rparr>"

text \<open>\<open>console.error\<close> writes to the same console.\<close>

definition console_error :: "log_line \<Rightarrow> world \<Rightarrow> world" where
  "console_error l w = w\<lparr>console := console w @ [l]\<rparr>"

subsection \<open>The adjacency map\<close>

text \<open>\<open>buildAdjacencyMap\<close>: an object from node identifiers to arrays of node
  identifiers.  The second loop reads \<open>map[edge.source_node_id]\<close> and calls \<open>push\<close> on
  it, which throws when the object has no such property (an identifier is a UUID, so it
  is never the name of a property that every object inherits).  \<open>edges\<close> is the \<open>data\<close> of
  a query, which is null when the query failed.\<close>

type_synonym adjacency = "string \<rightharpoonup> string list"

fun addEdges :: "edge list \<Rightarrow> adjacency \<Rightarrow> error + adjacency" where
  "addEdges [] m = Inr m"
| "addEdges (e # es) m =
     (case m (source_node_id e) of
        None \<Rightarrow> Inl (TypeError PushOfUndefined)
      | Some targets \<Rightarrow>
          addEdges es (m(source_node_id e \<mapsto> targets @ [target_node_id e])))"

definition buildAdjacencyMap :: "node list \<Rightarrow> edge list option \<Rightarrow> error + adjacency" where
  "buildAdjacencyMap nodes edges =
     (let m = fold (\<lambda>n m. m(node_id n \<mapsto> [])) nodes Map.empty
      in case edges of
           None \<Rightarrow> Inl (TypeError ForEachOfNull)
         | Some es \<Rightarrow> addEdges es m)"

subsection \<open>Node handlers\<close>

definition executeTrigger :: "host \<Rightarrow> node \<Rightarrow> world \<Rightarrow> envelope \<times> world" where
  "executeTrigger h n w =
     (let w1 = console_log (TriggerLine (js_or (property (config n) ''type'') ''scheduled'')) w;
          (triggeredAt, w2) = new_Date h w1
      in (TriggerEnvelope triggeredAt (config n), w2))"

definition fetchWeatherData :: "(string \<times> json) list \<Rightarrow> json" where
  "fetchWeatherData cfg = JObj [(''temp'', JNum 72), (''condition'', JStr ''Sunny'')]"

definition fetchCalendarData :: "(string \<times> json) list \<Rightarrow> json" where
  "fetchCalendarData cfg = JObj [(''events'', JArr [])]"

definition fetchGithubData :: "(string \<times> json) list \<Rightarrow> json" where
  "fetchGithubData cfg = JObj [(''commits'', JArr []), (''prs'', JArr [])]"

definition executeDataNode :: "host \<Rightarrow> node \<Rightarrow> execution_context \<Rightarrow> world \<Rightarrow> envelope \<times> world" where
  "executeDataNode h n executionData w =
     (let w1 = console_log (FetchingData (js_or (property (config n) ''source'') ''unknown'')) w;
          source = property (config n) ''source'';
          data =
            (if source = Some (JStr ''weather'') then fetchWeatherData (config n)
             else if source = Some (JStr ''calendar'') then fetchCalendarData (config n)
             else if source = Some (JStr ''github'') then fetchGithubData (config n)
             else JObj [(''message'', JStr ''Data source not configured'')]);
          (fetchedAt, w2) = new_Date h w1
      in (DataEnvelope source data fetchedAt, w2))"

text \<open>\<open>JSON.stringify(executionData)\<close> throws when \<open>executionData\<close> reaches itself, that
  is, when one of its envelopes holds the reference.\<close>

fun holds_reference :: "envelope \<Rightarrow> bool" where
  "holds_reference (TransformEnvelope t (Filtered r) d) = True"
| "holds_reference (TransformEnvelope t (Combined r) d) = True"
| "holds_reference (TransformEnvelope t (Transformed r) d) = True"
| "holds_reference e = False"

definition circular :: "execution_context \<Rightarrow> bool" where
  "circular executionData = list_ex (\<lambda>p. holds_reference (snd p)) executionData"

definition JSON_stringify :: "host \<Rightarrow> execution_context \<Rightarrow> error + string" where
  "JSON_stringify h executionData =
     (if circular executionData then Inl (TypeError CircularStructure)
      else Inr (stringify h executionData))"

definition summarizeData :: "host \<Rightarrow> execution_context \<Rightarrow> error + transform_result" where
  "summarizeData h executionData =
     (case JSON_stringify h executionData of
        Inl e \<Rightarrow> Inl e
      | Inr s \<Rightarrow> Inr (Summary s))"

definition filterData :: "execution_context \<Rightarrow> transform_result" where
  "filterData executionData = Filtered ExecutionData"

definition combineData :: "execution_context \<Rightarrow> transform_result" where
  "combineData executionData = Combined ExecutionData"

definition executeTransform ::
  "host \<Rightarrow> node \<Rightarrow> execution_context \<Rightarrow> world \<Rightarrow> (error + envelope) \<times> world" where
  "executeTransform h n executionData w =
     (let w1 = console_log (TransformingData (js_or (property (config n) ''type'') ''unknown'')) w;
          transformType = property (config n) ''type'';
          result =
            (if transformType = Some (JStr ''summarize'') then summarizeData h executionData
             else if transformType = Some (JStr ''filter'') then Inr (filterData executionData)
             else if transformType = Some (JStr ''combine'') then Inr (combineData executionData)
             else Inr (Transformed ExecutionData))
      in case result of
           Inl e \<Rightarrow> (Inl e, w1)
         | Inr r \<Rightarrow>
             (let (transformedAt, w2) = new_Date h w1
              in (Inr (TransformEnvelope transformType r transformedAt), w2)))"

definition sendEmail :: "(string \<times> json) list \<Rightarrow> world \<Rightarrow> action_result \<times> world" where
  "sendEmail cfg w =
     (EmailResult True (property cfg ''to''), console_log (SendingEmail (property cfg ''to'')) w)"

definition sendSMS :: "(string \<times> json) list \<Rightarrow> world \<Rightarrow> action_result \<times> world" where
  "sendSMS cfg w =
     (SMSResult True (property cfg ''phone''), console_log (SendingSMS (property cfg ''phone'')) w)"

definition postToSocial :: "(string \<times> json) list \<Rightarrow> world \<Rightarrow> action_result \<times> world" where
  "postToSocial cfg w =
     (PostResult True (property cfg ''platform''),
      console_log (PostingTo (property cfg ''platform'')) w)"

definition executeAction :: "host \<Rightarrow> node \<Rightarrow> execution_context \<Rightarrow> world \<Rightarrow> envelope \<times> world" where
  "executeAction h n executionData w =
     (let w1 = console_log (ActionLine (js_or (property (config n) ''type'') ''unknown'')) w;
          actionType = property (config n) ''type'';
          (result, w2) =
            (if actionType = Some (JStr ''email'') then sendEmail (config n) w1
             else if actionType = Some (JStr ''sms'') then sendSMS (config n) w1
             else if actionType = Some (JStr ''post'') then postToSocial (config n) w1
             else (ActionMessage ''Action not configured'', w1));
          (actionTime, w3) = new_Date h w2
      in (ActionEnvelope actionType result actionTime, w3))"

subsection \<open>The graph walker\<close>

text \<open>The \<open>switch\<close> of \<open>executeNode\<close> on \<open>node.node_type\<close>.\<close>

definition dispatch ::
  "host \<Rightarrow> node \<Rightarrow> execution_context \<Rightarrow> world \<Rightarrow> (error + envelope) \<times> world" where
  "dispatch h n executionData w =
     (if node_type n = ''trigger'' then
        (case executeTrigger h n w of (r, w') \<Rightarrow> (Inr r, w'))
      else if node_type n = ''data'' then
        (case executeDataNode h n executionData w of (r, w') \<Rightarrow> (Inr r, w'))
      else if node_type n = ''transform'' then executeTransform h n executionData w
      else if node_type n = ''action'' then
        (case executeAction h n executionData w of (r, w') \<Rightarrow> (Inr r, w'))
      else (Inl (Error (''Unknown node type: '' @ node_type n)), w))"

text \<open>\<open>executeNode\<close>, and the \<open>for\<close> loop of its body over \<open>connectedNodeIds\<close>.  The
  result is the exception thrown, if any, with the context and the world as the call
  left them.  The \<open>catch\<close> block logs the exception and throws it again, in every
  enclosing call.\<close>

fun executeNode ::
  "nat \<Rightarrow> host \<Rightarrow> node \<Rightarrow> adjacency \<Rightarrow> node list \<Rightarrow> execution_context \<Rightarrow> world
     \<Rightarrow> (error option \<times> execution_context \<times> world) option"
and forConnected ::
  "nat \<Rightarrow> host \<Rightarrow> string list \<Rightarrow> adjacency \<Rightarrow> node list \<Rightarrow> execution_context \<Rightarrow> world
     \<Rightarrow> (error option \<times> execution_context \<times> world) option"
where
  "executeNode 0 h n adjacencyMap nodes executionData w = None"
| "executeNode (Suc fuel) h n adjacencyMap nodes executionData w =
     (case dispatch h n executionData (console_log (ExecutingNode (label n) (node_type n)) w) of
        (Inl e, w1) \<Rightarrow>
          Some (Some e, executionData, console_error (ErrorExecutingNode (node_id n) e) w1)
      | (Inr result, w1) \<Rightarrow>
          (case adjacencyMap (node_id n) of
             None \<Rightarrow> Some (None, AList.update (node_id n) result executionData, w1)
           | Some connectedNodeIds \<Rightarrow>
               (case forConnected fuel h connectedNodeIds adjacencyMap nodes
                       (AList.update (node_id n) result executionData) w1 of
                  None \<Rightarrow> None
                | Some (None, executionData', w2) \<Rightarrow> Some (None, executionData', w2)
                | Some (Some e, executionData', w2) \<Rightarrow>
                    Some (Some e, executionData',
                          console_error (ErrorExecutingNode (node_id n) e) w2))))"
| "forConnected fuel h [] adjacencyMap nodes executionData w = Some (None, executionData, w)"
| "forConnected fuel h (nextNodeId # rest) adjacencyMap nodes executionData w =
     (case find (\<lambda>n. node_id n = nextNodeId) nodes of
        None \<Rightarrow> forConnected fuel h rest adjacencyMap nodes executionData w
      | Some nextNode \<Rightarrow>
          (case executeNode fuel h nextNode adjacencyMap nodes executionData w of
             None \<Rightarrow> None
           | Some (Some e, executionData', w') \<Rightarrow> Some (Some e, executionData', w')
           | Some (None, executionData', w') \<Rightarrow>
               forConnected fuel h rest adjacencyMap nodes executionData' w'))"

subsection \<open>The orchestrator\<close>

definition logExecution ::
  "host \<Rightarrow> string \<Rightarrow> string \<Rightarrow> string \<Rightarrow> error option \<Rightarrow> execution_context option \<Rightarrow> date
     \<Rightarrow> world \<Rightarrow> world" where
  "logExecution h workflowId executionId st errorMessage executionData startTime w =
     (let (endTime, w1) = new_Date h w;
          r = \<lparr>execution_id = executionId, of_workflow = workflowId, status = st,
               error_message = errorMessage, execution_data = executionData,
               started_at = startTime, ended_at = endTime\<rparr>;
          w2 = w1\<lparr>inserted := inserted w1 @ [r]\<rparr>
      in case insert_error h r of
           None \<Rightarrow> w2
         | Some m \<Rightarrow> console_error (FailedToLog m) w2)"

text \<open>The body of the \<open>try\<close> block of \<open>executeWorkflow\<close> up to the return of
  \<open>executeNode\<close>: the exception thrown or the final context.\<close>

definition runChecked ::
  "nat \<Rightarrow> host \<Rightarrow> string \<Rightarrow> world \<Rightarrow> ((error + execution_context) \<times> world) option" where
  "runChecked fuel h workflowId w =
     (let w1 = console_log (Starting workflowId) w
      in case select_workflow h workflowId of
           (None, workflowError) \<Rightarrow> Some (Inl (Error ''Workflow not found''), w1)
         | (Some workflow, Some workflowError) \<Rightarrow> Some (Inl (Error ''Workflow not found''), w1)
         | (Some workflow, None) \<Rightarrow>
             if \<not> enabled workflow then Some (Inl (Error ''Workflow is disabled''), w1)
             else
               (case select_nodes h workflowId of
                  None \<Rightarrow> Some (Inl (Error ''Workflow has no nodes''), w1)
                | Some nodes \<Rightarrow>
                    if nodes = [] then Some (Inl (Error ''Workflow has no nodes''), w1)
                    else
                      (case find (\<lambda>n. node_type n = ''trigger'') nodes of
                         None \<Rightarrow>
                           Some (Inl (Error
                             ''No trigger node found. Workflow must start with a trigger''), w1)
                       | Some triggerNode \<Rightarrow>
                           (case buildAdjacencyMap nodes (select_edges h workflowId) of
                              Inl e \<Rightarrow> Some (Inl e, w1)
                            | Inr adjacencyMap \<Rightarrow>
                                (case executeNode fuel h triggerNode adjacencyMap nodes [] w1 of
                                   None \<Rightarrow> None
                                 | Some (Some e, executionData, w2) \<Rightarrow> Some (Inl e, w2)
                                 | Some (None, executionData, w2) \<Rightarrow>
                                     Some (Inr executionData, w2))))))"

datatype run_outcome =
    Success string execution_context        \<comment> \<open>\<open>{ success: true, executionId, executionData }\<close>\<close>
  | Failure string error          \<comment> \<open>\<open>{ success: false, executionId, error }\<close>\<close>

definition executeWorkflow ::
  "nat \<Rightarrow> host \<Rightarrow> string \<Rightarrow> world \<Rightarrow> (run_outcome \<times> world) option" where
  "executeWorkflow fuel h workflowId w =
     (let executionId = uuidv4 h;
          (startTime, w0) = new_Date h w
      in case runChecked fuel h workflowId w0 of
           None \<Rightarrow> None
         | Some (Inr executionData, w1) \<Rightarrow>
             (let w2 = logExecution h workflowId executionId ''completed'' None
                         (Some executionData) startTime w1;
                  w3 = console_log (Completed workflowId) w2
              in Some (Success executionId executionData, w3))
         | Some (Inl e, w1) \<Rightarrow>
             (let w2 = console_error (ExecutionFailed e) w1;
                  w3 = logExecution h workflowId executionId ''failed'' (Some e) None startTime w2
              in Some (Failure executionId e, w3)))"

section \<open>Notions used by the statements\<close>

text \<open>The successors of a node identifier: the targets of the edges that leave it, in
  the order of the edge list.\<close>

definition successors :: "edge list \<Rightarrow> string \<Rightarrow> string list" where
  "successors es k = map target_node_id (filter (\<lambda>e. source_node_id e = k) es)"

text \<open>What \<open>executeNode\<close> does with the result of a recursive call: an exception is logged
  by the \<open>catch\<close> block and thrown again.\<close>

definition rethrown ::
  "node \<Rightarrow> (error option \<times> execution_context \<times> world) option
     \<Rightarrow> (error option \<times> execution_context \<times> world) option" where
  "rethrown n r =
     (case r of
        None \<Rightarrow> None
      | Some (None, c, w) \<Rightarrow> Some (None, c, w)
      | Some (Some e, c, w) \<Rightarrow>
          Some (Some e, c, console_error (ErrorExecutingNode (node_id n) e) w))"

text \<open>The part of \<open>executeNode\<close> after the handler has returned \<open>result\<close>: the assignment
  \<open>executionData[node.id] = result\<close>, then the loop over the connected nodes.\<close>

definition store_and_continue ::
  "nat \<Rightarrow> host \<Rightarrow> node \<Rightarrow> adjacency \<Rightarrow> node list \<Rightarrow> envelope \<Rightarrow> execution_context \<Rightarrow> world
     \<Rightarrow> (error option \<times> execution_context \<times> world) option" where
  "store_and_continue fuel h n adjacencyMap nodes result executionData w =
     (case adjacencyMap (node_id n) of
        None \<Rightarrow> Some (None, AList.update (node_id n) result executionData, w)
      | Some connectedNodeIds \<Rightarrow>
          rethrown n (forConnected fuel h connectedNodeIds adjacencyMap nodes
                        (AList.update (node_id n) result executionData) w))"

text \<open>The nodes visited, as the console shows them: the label and the category of
  each line that \<open>executeNode\<close> writes on entry.\<close>

fun visits :: "log_line list \<Rightarrow> (string \<times> string) list" where
  "visits [] = []"
| "visits (ExecutingNode l t # ls) = (l, t) # visits ls"
| "visits (other # ls) = visits ls"

text \<open>The \<open>catch\<close> block of \<open>executeWorkflow\<close>: what a run returns, and the world it leaves,
  when the exception \<open>e\<close> reaches it in the world \<open>w\<close>.\<close>

definition reported_failure ::
  "host \<Rightarrow> string \<Rightarrow> date \<Rightarrow> error \<Rightarrow> world \<Rightarrow> run_outcome \<times> world" where
  "reported_failure h workflowId startTime e w =
     (Failure (uuidv4 h) e,
      logExecution h workflowId (uuidv4 h) ''failed'' (Some e) None startTime
        (console_error (ExecutionFailed e) w))"

text \<open>The world of a run when it enters the precondition checks: the start time has
  been read and the first console line written.\<close>

definition started :: "string \<Rightarrow> world \<Rightarrow> world" where
  "started workflowId w =
     w\<lparr>clock := Suc (clock w), console := console w @ [Starting workflowId]\<rparr>"

text \<open>The message of the error thrown when no node is a trigger.\<close>

definition no_trigger_message :: string where
  "no_trigger_message = ''No trigger node found. Workflow must start with a trigger''"

text \<open>The categories with a handler, and the two kinds of transform node.\<close>

definition recognised :: "node \<Rightarrow> bool" where
  "recognised n = (node_type n \<in> {''trigger'', ''data'', ''transform'', ''action''})"

definition summarizes :: "node \<Rightarrow> bool" where
  "summarizes n =
     (node_type n = ''transform'' \<and> property (config n) ''type'' = Some (JStr ''summarize''))"

definition passes_context :: "node \<Rightarrow> bool" where
  "passes_context n =
     (node_type n = ''transform'' \<and> property (config n) ''type'' \<noteq> Some (JStr ''summarize''))"

text \<open>The time and the \<open>type\<close> field of an envelope.\<close>

fun stamp :: "envelope \<Rightarrow> date" where
  "stamp (TriggerEnvelope d c) = d"
| "stamp (DataEnvelope s j d) = d"
| "stamp (TransformEnvelope t r d) = d"
| "stamp (ActionEnvelope t r d) = d"

fun kind :: "envelope \<Rightarrow> string" where
  "kind (TriggerEnvelope d c) = ''trigger''"
| "kind (DataEnvelope s j d) = ''data''"
| "kind (TransformEnvelope t r d) = ''transform''"
| "kind (ActionEnvelope t r d) = ''action''"

text \<open>The edges as pairs of identifiers.\<close>

definition edge_pairs :: "edge list \<Rightarrow> (string \<times> string) list" where
  "edge_pairs es = map (\<lambda>e. (source_node_id e, target_node_id e)) es"

text \<open>The edge set, as a relation on identifiers.\<close>

definition edge_rel :: "edge list \<Rightarrow> (string \<times> string) set" where
  "edge_rel es = set (edge_pairs es)"

text \<open>The recursive calls of \<open>executeNode\<close>: the call on \<open>n\<close> makes a call on \<open>m\<close> when the
  list of \<open>n\<close>'s connected identifiers holds an identifier that \<open>nodes.find\<close> resolves
  to \<open>m\<close>.\<close>

definition calls :: "adjacency \<Rightarrow> node list \<Rightarrow> (node \<times> node) set" where
  "calls adjacencyMap nodes =
     {(n, m). \<exists>ids k. adjacencyMap (node_id n) = Some ids \<and> k \<in> set ids
                \<and> find (\<lambda>x. node_id x = k) nodes = Some m}"

text \<open>The nodes that a call of \<open>executeNode\<close> on \<open>n\<close> can execute: \<open>n\<close> and what its calls
  lead to.\<close>

definition reached :: "adjacency \<Rightarrow> node list \<Rightarrow> node \<Rightarrow> node set" where
  "reached adjacencyMap nodes n = {m. (n, m) \<in> (calls adjacencyMap nodes)\<^sup>*}"

text \<open>A category without a handler.\<close>

definition unknown_category :: "string \<Rightarrow> bool" where
  "unknown_category ty = (ty \<notin> {''trigger'', ''data'', ''transform'', ''action''})"

text \<open>How a call that returned \<open>r\<close> has gone, by the visits \<open>vs\<close> it made.  After a
  normal return every visited category has a handler.  After an exception there is a
  last visit, the one whose handler threw; every visit before it was of a category with
  a handler; and when the last one was not, the exception is the error that names that
  category.\<close>

fun halting :: "error option \<Rightarrow> (string \<times> string) list \<Rightarrow> bool" where
  "halting None vs = list_all (\<lambda>v. \<not> unknown_category (snd v)) vs"
| "halting (Some e) vs =
     (vs \<noteq> [] \<and> list_all (\<lambda>v. \<not> unknown_category (snd v)) (butlast vs)
      \<and> (unknown_category (snd (last vs)) \<longrightarrow>
           e = Error (''Unknown node type: '' @ snd (last vs))))"


subsection \<open>Sample inputs\<close>

text \<open>A host whose store holds one enabled workflow with the given nodes and edges, and
  whose clock reads 0, 1, 2, ...\<close>

definition sample_host :: "node list \<Rightarrow> edge list \<Rightarrow> host" where
  "sample_host ns es =
     \<lparr>now = (\<lambda>k. int k), uuidv4 = ''run-1'', stringify = (\<lambda>c. ''{}''),
      select_workflow = (\<lambda>i. (Some \<lparr>workflow_id = i, enabled = True\<rparr>, None)),
      select_nodes = (\<lambda>i. Some ns), select_edges = (\<lambda>i. Some es),
      insert_error = (\<lambda>r. None)\<rparr>"

definition sample_world :: world where
  "sample_world = \<lparr>clock = 0, console = [], inserted = []\<rparr>"

text \<open>Nodes and edges of the sample workflows.\<close>

definition weather_node :: node where
  "weather_node =
     \<lparr>node_id = ''d'', node_type = ''data'', label = ''Weather'',
      config = [(''source'', JStr ''weather'')]\<rparr>"

definition orphan_edge :: edge where
  "orphan_edge = \<lparr>source_node_id = ''gone'', target_node_id = ''d''\<rparr>"

definition dangling_edge :: edge where
  "dangling_edge = \<lparr>source_node_id = ''d'', target_node_id = ''gone''\<rparr>"

definition plain_trigger :: node where
  "plain_trigger =
     \<lparr>node_id = ''t'', node_type = ''trigger'', label = ''Start'', config = []\<rparr>"

definition plain_transform :: node where
  "plain_transform =
     \<lparr>node_id = ''x'', node_type = ''transform'', label = ''Shape'',
      config = [(''type'', JStr ''uppercase'')]\<rparr>"

definition plain_action :: node where
  "plain_action =
     \<lparr>node_id = ''a'', node_type = ''action'', label = ''Notify'', config = []\<rparr>"

definition link :: "string \<Rightarrow> string \<Rightarrow> edge" where
  "link a b = \<lparr>source_node_id = a, target_node_id = b\<rparr>"

text \<open>A store that refuses every insertion.\<close>

definition storage_down :: "execution_record \<Rightarrow> string option" where
  "storage_down r = Some ''connection refused''"

text \<open>A node of a category that has no handler.\<close>

definition webhook_node :: node where
  "webhook_node =
     \<lparr>node_id = ''h'', node_type = ''webhook'', label = ''Hook'', config = []\<rparr>"

text \<open>The diamond \<open>t\<close> to \<open>a\<close>, \<open>t\<close> to \<open>b\<close>, \<open>a\<close> to \<open>c\<close>, \<open>b\<close> to \<open>c\<close> of data nodes without
  a source, the map that \<open>buildAdjacencyMap\<close> builds for it, and the contexts of its run:
  after the trigger, after the visits through \<open>a\<close>, and at the end.\<close>

definition not_configured :: json where
  "not_configured = JObj [(''message'', JStr ''Data source not configured'')]"

definition data_node :: "string \<Rightarrow> string \<Rightarrow> node" where
  "data_node k l = \<lparr>node_id = k, node_type = ''data'', label = l, config = []\<rparr>"

definition diamond_nodes :: "node list" where
  "diamond_nodes =
     [plain_trigger, data_node ''a'' ''A'', data_node ''b'' ''B'', data_node ''c'' ''C'']"

definition diamond_edges :: "edge list" where
  "diamond_edges = [link ''t'' ''a'', link ''t'' ''b'', link ''a'' ''c'', link ''b'' ''c'']"

definition diamond_map :: adjacency where
  "diamond_map k =
     (if k \<in> node_id ` set diamond_nodes then Some (successors diamond_edges k) else None)"

definition diamond_host :: host where
  "diamond_host = sample_host diamond_nodes diamond_edges"

definition diamond_entered :: execution_context where
  "diamond_entered = [(''t'', TriggerEnvelope (Date 1) [])]"

definition diamond_midway :: execution_context where
  "diamond_midway =
     [(''t'', TriggerEnvelope (Date 1) []),
      (''a'', DataEnvelope None not_configured (Date 2)),
      (''c'', DataEnvelope None not_configured (Date 3))]"

definition diamond_final :: execution_context where
  "diamond_final =
     [(''t'', TriggerEnvelope (Date 1) []),
      (''a'', DataEnvelope None not_configured (Date 2)),
      (''c'', DataEnvelope None not_configured (Date 5)),
      (''b'', DataEnvelope None not_configured (Date 4))]"

definition diamond_world :: "nat \<Rightarrow> world" where
  "diamond_world k = \<lparr>clock = k, console = [], inserted = []\<rparr>"

text \<open>The chain trigger, data, transform, action, its rows in another order.\<close>

definition chain_nodes :: "node list" where
  "chain_nodes = [plain_action, weather_node, plain_trigger, plain_transform]"

definition chain_edges :: "edge list" where
  "chain_edges = [link ''x'' ''a'', link ''t'' ''d'', link ''d'' ''x'']"

text \<open>A diamond in which \<open>a\<close> is a filter transform and \<open>c\<close> a summarize transform.\<close>

definition filter_node :: node where
  "filter_node =
     \<lparr>node_id = ''a'', node_type = ''transform'', label = ''Keep'',
      config = [(''type'', JStr ''filter'')]\<rparr>"

definition summarize_node :: node where
  "summarize_node =
     \<lparr>node_id = ''c'', node_type = ''transform'', label = ''Digest'',
      config = [(''type'', JStr ''summarize'')]\<rparr>"

definition failing_diamond :: "node list" where
  "failing_diamond = [plain_trigger, filter_node, data_node ''b'' ''B'', summarize_node]"

text \<open>A workflow of one edge, and one with the cycle \<open>a\<close> to \<open>b\<close> to \<open>a\<close> below the
  trigger, each with the map that \<open>buildAdjacencyMap\<close> builds for it.\<close>

definition line_nodes :: "node list" where
  "line_nodes = [plain_trigger, plain_action]"

definition line_edges :: "edge list" where
  "line_edges = [link ''t'' ''a'']"

definition line_map :: adjacency where
  "line_map k =
     (if k \<in> node_id ` set line_nodes then Some (successors line_edges k) else None)"

definition loop_nodes :: "node list" where
  "loop_nodes = [plain_trigger, data_node ''a'' ''A'', data_node ''b'' ''B'']"

definition loop_edges :: "edge list" where
  "loop_edges = [link ''t'' ''a'', link ''a'' ''b'', link ''b'' ''a'']"

definition loop_map :: adjacency where
  "loop_map k =
     (if k \<in> node_id ` set loop_nodes then Some (successors loop_edges k) else None)"

text \<open>A workflow in which the node without a handler is the second successor of \<open>a\<close>,
  two calls below the trigger, with \<open>b\<close> after it in two lists, and the world that its
  run leaves.\<close>

definition hooked_nodes :: "node list" where
  "hooked_nodes =
     [plain_trigger, data_node ''a'' ''A'', data_node ''b'' ''B'', data_node ''c'' ''C'',
      webhook_node]"

definition hooked_edges :: "edge list" where
  "hooked_edges =
     [link ''t'' ''a'', link ''t'' ''b'', link ''a'' ''c'', link ''a'' ''h'', link ''h'' ''b'']"

definition hooked_world :: world where
  "hooked_world =
     \<lparr>clock = 5,
      console = [Starting ''w'', ExecutingNode ''Start'' ''trigger'',
                 TriggerLine (JStr ''scheduled''), ExecutingNode ''A'' ''data'',
                 FetchingData (JStr ''unknown''), ExecutingNode ''C'' ''data'',
                 FetchingData (JStr ''unknown''), ExecutingNode ''Hook'' ''webhook'',
                 ErrorExecutingNode ''h'' (Error ''Unknown node type: webhook''),
                 ErrorExecutingNode ''a'' (Error ''Unknown node type: webhook''),
                 ErrorExecutingNode ''t'' (Error ''Unknown node type: webhook''),
                 ExecutionFailed (Error ''Unknown node type: webhook'')],
      inserted = [\<lparr>execution_id = ''run-1'', of_workflow = ''w'', status = ''failed'',
                   error_message = Some (Error ''Unknown node type: webhook''),
                   execution_data = None, started_at = Date 0, ended_at = Date 4\<rparr>]\<rparr>"

text \<open>Two workflows whose edge set has the cycle \<open>a\<close> to \<open>b\<close> to \<open>a\<close>, resp. \<open>a\<close> to \<open>h\<close> to
  \<open>a\<close>: in the first no edge leaves the trigger; in the second the cycle passes through
  the node without a handler.\<close>

definition island_edges :: "edge list" where
  "island_edges = [link ''a'' ''b'', link ''b'' ''a'']"

definition island_map :: adjacency where
  "island_map k =
     (if k \<in> node_id ` set loop_nodes then Some (successors island_edges k) else None)"

definition snag_nodes :: "node list" where
  "snag_nodes = [plain_trigger, data_node ''a'' ''A'', webhook_node]"

definition snag_edges :: "edge list" where
  "snag_edges = [link ''t'' ''a'', link ''a'' ''h'', link ''h'' ''a'']"

section \<open>Verified properties\<close>

subsection \<open>The adjacency builder\<close>

lemma init_map:
  "fold (\<lambda>n m. m(node_id n \<mapsto> [])) nodes m0 k =
     (if k \<in> node_id ` set nodes then Some [] else m0 k)"
  by (induction nodes arbitrary: m0) auto

lemma addEdges_ok:
  "\<forall>e\<in>set es. source_node_id e \<in> dom m \<Longrightarrow>
   addEdges es m = Inr (\<lambda>k. map_option (\<lambda>ts. ts @ successors es k) (m k))"
proof (induction es arbitrary: m)
  case Nil
  then show ?case by (simp add: successors_def option.map_ident)
next
  case (Cons e es)
  from Cons.prems obtain ts where ts: "m (source_node_id e) = Some ts" by auto
  let ?m = "m(source_node_id e \<mapsto> ts @ [target_node_id e])"
  have "\<forall>e'\<in>set es. source_node_id e' \<in> dom ?m" using Cons.prems by auto
  then have IH: "addEdges es ?m = Inr (\<lambda>k. map_option (\<lambda>ts. ts @ successors es k) (?m k))"
    by (rule Cons.IH)
  show ?case
    by (simp add: ts IH) (auto simp: successors_def fun_eq_iff ts)
qed

lemma buildAdjacencyMap_closed_form:
  assumes "\<forall>e\<in>set es. source_node_id e \<in> node_id ` set nodes"
  shows "buildAdjacencyMap nodes (Some es) =
           Inr (\<lambda>k. if k \<in> node_id ` set nodes then Some (successors es k) else None)"
proof -
  let ?m = "fold (\<lambda>n m. m(node_id n \<mapsto> [])) nodes Map.empty"
  have d: "dom ?m = node_id ` set nodes"
    by (auto simp: init_map dom_def)
  have "addEdges es ?m = Inr (\<lambda>k. map_option (\<lambda>ts. ts @ successors es k) (?m k))"
    by (rule addEdges_ok) (simp add: d assms)
  then show ?thesis
    by (simp add: buildAdjacencyMap_def init_map fun_eq_iff)
qed

text \<open>
  C5 (as amended).  For every node list and every edge list in which the source of every
  edge is the identifier of a listed node, \<open>buildAdjacencyMap\<close> returns a map; its keys
  are exactly the node identifiers; every node identifier is mapped to the targets of its
  outgoing edges in the order of the edge list, which is the empty list for a node
  without outgoing edges; and an edge whose target is no node's identifier still puts
  that target into its source's list, where the walker's \<open>nodes.find\<close> does not resolve
  it.
\<close>

theorem buildAdjacencyMap_total:
  assumes "\<forall>e\<in>set es. source_node_id e \<in> node_id ` set nodes"
  shows "\<exists>m. buildAdjacencyMap nodes (Some es) = Inr m
           \<and> dom m = node_id ` set nodes
           \<and> (\<forall>n\<in>set nodes. m (node_id n) = Some (successors es (node_id n)))
           \<and> (\<forall>n\<in>set nodes. node_id n \<notin> source_node_id ` set es \<longrightarrow> m (node_id n) = Some [])
           \<and> (\<forall>e\<in>set es. target_node_id e \<notin> node_id ` set nodes \<longrightarrow>
                  (\<exists>ts. m (source_node_id e) = Some ts \<and> target_node_id e \<in> set ts)
                  \<and> find (\<lambda>n. node_id n = target_node_id e) nodes = None)"
proof -
  let ?m = "\<lambda>k. if k \<in> node_id ` set nodes then Some (successors es k) else None"
  have 1: "buildAdjacencyMap nodes (Some es) = Inr ?m"
    by (rule buildAdjacencyMap_closed_form [OF assms])
  have 2: "dom ?m = node_id ` set nodes"
    by (auto simp: dom_def)
  have 3: "\<forall>n\<in>set nodes. ?m (node_id n) = Some (successors es (node_id n))"
    by simp
  have 4: "\<forall>n\<in>set nodes. node_id n \<notin> source_node_id ` set es \<longrightarrow> ?m (node_id n) = Some []"
    by (auto simp: successors_def filter_empty_conv image_iff)
  have 5: "\<forall>e\<in>set es. target_node_id e \<notin> node_id ` set nodes \<longrightarrow>
             (\<exists>ts. ?m (source_node_id e) = Some ts \<and> target_node_id e \<in> set ts)
             \<and> find (\<lambda>n. node_id n = target_node_id e) nodes = None"
    using assms by (auto simp: successors_def find_None_iff image_iff)
  from 1 2 3 4 5 show ?thesis by blast
qed

theorem buildAdjacencyMap_total_witness:
  "\<exists>m. buildAdjacencyMap [weather_node] (Some [dangling_edge]) = Inr m
      \<and> m ''d'' = Some [''gone'']
      \<and> find (\<lambda>n. node_id n = ''gone'') [weather_node] = None"
  using buildAdjacencyMap_total [of "[dangling_edge]" "[weather_node]"]
  by (auto simp: weather_node_def dangling_edge_def successors_def)

text \<open>An edge whose source is no node's identifier makes the builder throw.\<close>

theorem buildAdjacencyMap_orphan_source:
  "buildAdjacencyMap [weather_node] (Some [orphan_edge]) = Inl (TypeError PushOfUndefined)"
  by (simp add: buildAdjacencyMap_def weather_node_def orphan_edge_def)

subsection \<open>The node handlers\<close>

text \<open>
  C7.  A data node whose \<open>config.source\<close> is the string \<open>weather\<close> gets, from the data
  handler, the envelope of type data with that source, the literal payload
  \<open>{ temp: 72, condition: 'Sunny' }\<close> and the time of the call; the handler reads the
  clock and writes one console line, and consults nothing else of the host.
\<close>

theorem weather_stub:
  assumes "property (config n) ''source'' = Some (JStr ''weather'')"
  shows "executeDataNode h n executionData w =
    (DataEnvelope (Some (JStr ''weather''))
       (JObj [(''temp'', JNum 72), (''condition'', JStr ''Sunny'')])
       (Date (now h (clock w))),
     w\<lparr>clock := Suc (clock w), console := console w @ [FetchingData (JStr ''weather'')]\<rparr>)"
  using assms
  by (simp add: executeDataNode_def fetchWeatherData_def new_Date_def console_log_def)

theorem weather_stub_witness:
  "property (config weather_node) ''source'' = Some (JStr ''weather'')
   \<and> fst (executeDataNode (sample_host [] []) weather_node [] sample_world) =
       DataEnvelope (Some (JStr ''weather''))
         (JObj [(''temp'', JNum 72), (''condition'', JStr ''Sunny'')]) (Date 0)"
  using weather_stub [of weather_node "sample_host [] []" "[]" sample_world]
  by (simp add: weather_node_def property_def sample_host_def sample_world_def)

subsection \<open>Unrecognised subtypes\<close>

lemma executeNode_Suc:
  "executeNode (Suc fuel) h n adjacencyMap nodes executionData w =
     (case dispatch h n executionData (console_log (ExecutingNode (label n) (node_type n)) w) of
        (Inl e, w1) \<Rightarrow>
          Some (Some e, executionData, console_error (ErrorExecutingNode (node_id n) e) w1)
      | (Inr result, w1) \<Rightarrow> store_and_continue fuel h n adjacencyMap nodes result executionData w1)"
  by (simp add: store_and_continue_def rethrown_def split: prod.splits sum.splits option.splits)

lemma executeTransform_default:
  assumes "property (config n) ''type'' \<notin>
             {Some (JStr ''summarize''), Some (JStr ''filter''), Some (JStr ''combine'')}"
  shows "executeTransform h n executionData w =
     (Inr (TransformEnvelope (property (config n) ''type'') (Transformed ExecutionData)
             (Date (now h (clock w)))),
      w\<lparr>clock := Suc (clock w),
        console := console w @
          [TransformingData (js_or (property (config n) ''type'') ''unknown'')]\<rparr>)"
  using assms by (simp add: executeTransform_def new_Date_def console_log_def)

lemma executeAction_default:
  assumes "property (config n) ''type'' \<notin>
             {Some (JStr ''email''), Some (JStr ''sms''), Some (JStr ''post'')}"
  shows "executeAction h n executionData w =
     (ActionEnvelope (property (config n) ''type'') (ActionMessage ''Action not configured'')
             (Date (now h (clock w))),
      w\<lparr>clock := Suc (clock w),
        console := console w @ [ActionLine (js_or (property (config n) ''type'') ''unknown'')]\<rparr>)"
  using assms by (simp add: executeAction_def new_Date_def console_log_def)

text \<open>
  C10.  A transform node whose \<open>config.type\<close> is none of summarize, filter, combine gets
  the envelope whose result is \<open>{ transformed: executionData }\<close>, the context object
  itself; an action node whose \<open>config.type\<close> is none of email, sms, post gets the
  envelope whose result is \<open>{ message: 'Action not configured' }\<close>.  Neither handler
  throws, and \<open>executeNode\<close> stores the envelope under the node's identifier and goes on
  to the connected nodes.
\<close>

theorem unconfigured_subtypes:
  "(node_type n = ''transform'' \<and>
    property (config n) ''type'' \<notin>
      {Some (JStr ''summarize''), Some (JStr ''filter''), Some (JStr ''combine'')} \<longrightarrow>
      executeTransform h n executionData w =
        (Inr (TransformEnvelope (property (config n) ''type'') (Transformed ExecutionData)
                (Date (now h (clock w)))),
         w\<lparr>clock := Suc (clock w),
           console := console w @
             [TransformingData (js_or (property (config n) ''type'') ''unknown'')]\<rparr>)
      \<and> executeNode (Suc fuel) h n adjacencyMap nodes executionData w =
          store_and_continue fuel h n adjacencyMap nodes
            (TransformEnvelope (property (config n) ''type'') (Transformed ExecutionData)
               (Date (now h (clock w))))
            executionData
            (w\<lparr>clock := Suc (clock w),
               console := console w @
                 [ExecutingNode (label n) (node_type n),
                  TransformingData (js_or (property (config n) ''type'') ''unknown'')]\<rparr>))
   \<and> (node_type n = ''action'' \<and>
      property (config n) ''type'' \<notin>
        {Some (JStr ''email''), Some (JStr ''sms''), Some (JStr ''post'')} \<longrightarrow>
      executeAction h n executionData w =
        (ActionEnvelope (property (config n) ''type'') (ActionMessage ''Action not configured'')
           (Date (now h (clock w))),
         w\<lparr>clock := Suc (clock w),
           console := console w @
             [ActionLine (js_or (property (config n) ''type'') ''unknown'')]\<rparr>)
      \<and> executeNode (Suc fuel) h n adjacencyMap nodes executionData w =
          store_and_continue fuel h n adjacencyMap nodes
            (ActionEnvelope (property (config n) ''type'') (ActionMessage ''Action not configured'')
               (Date (now h (clock w))))
            executionData
            (w\<lparr>clock := Suc (clock w),
               console := console w @
                 [ExecutingNode (label n) (node_type n),
                  ActionLine (js_or (property (config n) ''type'') ''unknown'')]\<rparr>))"
proof (intro conjI impI)
  assume a: "node_type n = ''transform'' \<and>
    property (config n) ''type'' \<notin>
      {Some (JStr ''summarize''), Some (JStr ''filter''), Some (JStr ''combine'')}"
  then show "executeTransform h n executionData w =
        (Inr (TransformEnvelope (property (config n) ''type'') (Transformed ExecutionData)
                (Date (now h (clock w)))),
         w\<lparr>clock := Suc (clock w),
           console := console w @
             [TransformingData (js_or (property (config n) ''type'') ''unknown'')]\<rparr>)"
    by (simp add: executeTransform_default)
  from a show "executeNode (Suc fuel) h n adjacencyMap nodes executionData w =
          store_and_continue fuel h n adjacencyMap nodes
            (TransformEnvelope (property (config n) ''type'') (Transformed ExecutionData)
               (Date (now h (clock w))))
            executionData
            (w\<lparr>clock := Suc (clock w),
               console := console w @
                 [ExecutingNode (label n) (node_type n),
                  TransformingData (js_or (property (config n) ''type'') ''unknown'')]\<rparr>)"
    by (simp only: executeNode_Suc dispatch_def)
       (simp add: executeTransform_default console_log_def)
next
  assume a: "node_type n = ''action'' \<and>
      property (config n) ''type'' \<notin>
        {Some (JStr ''email''), Some (JStr ''sms''), Some (JStr ''post'')}"
  then show "executeAction h n executionData w =
        (ActionEnvelope (property (config n) ''type'') (ActionMessage ''Action not configured'')
           (Date (now h (clock w))),
         w\<lparr>clock := Suc (clock w),
           console := console w @
             [ActionLine (js_or (property (config n) ''type'') ''unknown'')]\<rparr>)"
    by (simp add: executeAction_default)
  from a show "executeNode (Suc fuel) h n adjacencyMap nodes executionData w =
          store_and_continue fuel h n adjacencyMap nodes
            (ActionEnvelope (property (config n) ''type'') (ActionMessage ''Action not configured'')
               (Date (now h (clock w))))
            executionData
            (w\<lparr>clock := Suc (clock w),
               console := console w @
                 [ExecutingNode (label n) (node_type n),
                  ActionLine (js_or (property (config n) ''type'') ''unknown'')]\<rparr>)"
    by (simp only: executeNode_Suc dispatch_def)
       (simp add: executeAction_default console_log_def)
qed

lemmas run_defs =
  executeWorkflow_def runChecked_def logExecution_def buildAdjacencyMap_def dispatch_def
  executeTrigger_def executeDataNode_def executeTransform_def executeAction_def
  summarizeData_def JSON_stringify_def circular_def filterData_def combineData_def
  sendEmail_def sendSMS_def postToSocial_def
  fetchWeatherData_def fetchCalendarData_def fetchGithubData_def
  new_Date_def console_log_def console_error_def property_def Let_def numeral_nat

lemmas sample_defs =
  sample_host_def sample_world_def weather_node_def plain_trigger_def plain_transform_def
  plain_action_def link_def

theorem unconfigured_subtypes_witness:
  "fst (executeTransform (sample_host [] []) plain_transform [] sample_world) =
     Inr (TransformEnvelope (Some (JStr ''uppercase'')) (Transformed ExecutionData) (Date 0))
   \<and> fst (executeAction (sample_host [] []) plain_action [] sample_world) =
     ActionEnvelope None (ActionMessage ''Action not configured'') (Date 0)
   \<and> map_option fst (executeWorkflow 5
        (sample_host [plain_trigger, plain_transform, plain_action]
           [link ''t'' ''x'', link ''x'' ''a'']) ''w'' sample_world) =
     Some (Success ''run-1''
       [(''t'', TriggerEnvelope (Date 1) []),
        (''x'', TransformEnvelope (Some (JStr ''uppercase'')) (Transformed ExecutionData)
                  (Date 2)),
        (''a'', ActionEnvelope None (ActionMessage ''Action not configured'') (Date 3))])"
proof -
  have t: "node_type plain_transform = ''transform'' \<and>
      property (config plain_transform) ''type'' \<notin>
        {Some (JStr ''summarize''), Some (JStr ''filter''), Some (JStr ''combine'')}"
    by (simp add: plain_transform_def property_def)
  have a: "node_type plain_action = ''action'' \<and>
      property (config plain_action) ''type'' \<notin>
        {Some (JStr ''email''), Some (JStr ''sms''), Some (JStr ''post'')}"
    by (simp add: plain_action_def property_def)
  have 1: "fst (executeTransform (sample_host [] []) plain_transform [] sample_world) =
     Inr (TransformEnvelope (Some (JStr ''uppercase'')) (Transformed ExecutionData) (Date 0))"
    using t unconfigured_subtypes [of plain_transform "sample_host [] []" "[]" sample_world]
    by (simp add: sample_defs property_def)
  have 2: "fst (executeAction (sample_host [] []) plain_action [] sample_world) =
     ActionEnvelope None (ActionMessage ''Action not configured'') (Date 0)"
    using a unconfigured_subtypes [of plain_action "sample_host [] []" "[]" sample_world]
    by (simp add: sample_defs property_def)
  have 3: "map_option fst (executeWorkflow 5
        (sample_host [plain_trigger, plain_transform, plain_action]
           [link ''t'' ''x'', link ''x'' ''a'']) ''w'' sample_world) =
     Some (Success ''run-1''
       [(''t'', TriggerEnvelope (Date 1) []),
        (''x'', TransformEnvelope (Some (JStr ''uppercase'')) (Transformed ExecutionData)
                  (Date 2)),
        (''a'', ActionEnvelope None (ActionMessage ''Action not configured'') (Date 3))])"
    by (simp add: run_defs sample_defs)
  from 1 2 3 show ?thesis by simp
qed

subsection \<open>The orchestrator\<close>

lemma visits_append: "visits (xs @ ys) = visits xs @ visits ys"
  by (induction xs rule: visits.induct) simp_all

lemma logExecution_inserted:
  "inserted (logExecution h i x st em ed t w) =
     inserted w @ [\<lparr>execution_id = x, of_workflow = i, status = st, error_message = em,
                    execution_data = ed, started_at = t,
                    ended_at = Date (now h (clock w))\<rparr>]"
  by (simp add: logExecution_def new_Date_def console_error_def Let_def split: option.splits)

lemma logExecution_visits:
  "visits (console (logExecution h i x st em ed t w)) = visits (console w)"
  by (simp add: logExecution_def new_Date_def console_error_def Let_def visits_append
      split: option.splits)

lemma logExecution_console:
  "console (logExecution h i x st em ed t w) =
     console w @
       (case insert_error h \<lparr>execution_id = x, of_workflow = i, status = st,
               error_message = em, execution_data = ed, started_at = t,
               ended_at = Date (now h (clock w))\<rparr> of
          None \<Rightarrow> [] | Some m \<Rightarrow> [FailedToLog m])"
  by (simp add: logExecution_def new_Date_def console_error_def Let_def split: option.splits)

lemma executeWorkflow_caught:
  "runChecked fuel h i (w\<lparr>clock := Suc (clock w)\<rparr>) = Some (Inl e, w1) \<Longrightarrow>
   executeWorkflow fuel h i w = Some (reported_failure h i (Date (now h (clock w))) e w1)"
  by (simp add: executeWorkflow_def reported_failure_def new_Date_def Let_def)

lemma started_eq:
  "console_log (Starting i) (w\<lparr>clock := Suc (clock w)\<rparr>) = started i w"
  by (simp add: started_def console_log_def)

lemma runChecked_not_found:
  "fst (select_workflow h i) = None \<or> snd (select_workflow h i) \<noteq> None \<Longrightarrow>
   runChecked fuel h i w0 = Some (Inl (Error ''Workflow not found''), console_log (Starting i) w0)"
  by (cases "select_workflow h i") (auto simp: runChecked_def Let_def split: option.splits)

lemma runChecked_disabled:
  "select_workflow h i = (Some wfl, None) \<Longrightarrow> \<not> enabled wfl \<Longrightarrow>
   runChecked fuel h i w0 = Some (Inl (Error ''Workflow is disabled''), console_log (Starting i) w0)"
  by (simp add: runChecked_def Let_def)

lemma runChecked_no_nodes:
  "select_workflow h i = (Some wfl, None) \<Longrightarrow> enabled wfl \<Longrightarrow>
   select_nodes h i = None \<or> select_nodes h i = Some [] \<Longrightarrow>
   runChecked fuel h i w0 = Some (Inl (Error ''Workflow has no nodes''), console_log (Starting i) w0)"
  by (auto simp: runChecked_def Let_def)

lemma runChecked_no_trigger:
  "select_workflow h i = (Some wfl, None) \<Longrightarrow> enabled wfl \<Longrightarrow>
   select_nodes h i = Some ns \<Longrightarrow> ns \<noteq> [] \<Longrightarrow> \<forall>n\<in>set ns. node_type n \<noteq> ''trigger'' \<Longrightarrow>
   runChecked fuel h i w0 = Some (Inl (Error no_trigger_message), console_log (Starting i) w0)"
proof -
  assume a: "select_workflow h i = (Some wfl, None)" "enabled wfl" "select_nodes h i = Some ns"
    "ns \<noteq> []" "\<forall>n\<in>set ns. node_type n \<noteq> ''trigger''"
  then have "find (\<lambda>n. node_type n = ''trigger'') ns = None"
    by (simp add: find_None_iff)
  with a show ?thesis
    by (simp add: runChecked_def Let_def no_trigger_message_def)
qed

text \<open>
  C2.  \<open>executeWorkflow\<close> checks, in this order, that the workflow is found, that it is
  enabled, that it has at least one node and that one of its nodes is a trigger.  The
  first check that fails decides the outcome, whatever the later ones would say: the
  run returns a failure with the execution identifier and that check's own message (the
  four messages differ), and one record is sent to the store, with status failed, the
  message, and no context.  For a workflow that is found and enabled and whose nodes,
  at least one, include no trigger, the message is the one about the missing trigger.
  None of this depends on the fuel, so it holds with none: \<open>executeNode\<close> is not called,
  and the console gets no line of a visit.
\<close>

theorem preconditions_in_order:
  "(fst (select_workflow h i) = None \<or> snd (select_workflow h i) \<noteq> None \<longrightarrow>
      executeWorkflow fuel h i w =
        Some (reported_failure h i (Date (now h (clock w))) (Error ''Workflow not found'')
                (started i w)))
   \<and> (select_workflow h i = (Some wfl, None) \<and> \<not> enabled wfl \<longrightarrow>
      executeWorkflow fuel h i w =
        Some (reported_failure h i (Date (now h (clock w))) (Error ''Workflow is disabled'')
                (started i w)))
   \<and> (select_workflow h i = (Some wfl, None) \<and> enabled wfl
        \<and> (select_nodes h i = None \<or> select_nodes h i = Some []) \<longrightarrow>
      executeWorkflow fuel h i w =
        Some (reported_failure h i (Date (now h (clock w))) (Error ''Workflow has no nodes'')
                (started i w)))
   \<and> (select_workflow h i = (Some wfl, None) \<and> enabled wfl
        \<and> select_nodes h i = Some ns \<and> ns \<noteq> []
        \<and> (\<forall>n\<in>set ns. node_type n \<noteq> ''trigger'') \<longrightarrow>
      executeWorkflow fuel h i w =
        Some (reported_failure h i (Date (now h (clock w))) (Error no_trigger_message)
                (started i w)))
   \<and> inserted (snd (reported_failure h i t e w1)) =
        inserted w1 @ [\<lparr>execution_id = uuidv4 h, of_workflow = i, status = ''failed'',
                        error_message = Some e, execution_data = None, started_at = t,
                        ended_at = Date (now h (clock w1))\<rparr>]
   \<and> visits (console (snd (reported_failure h i t e (started i w)))) = visits (console w)
   \<and> distinct [''Workflow not found'', ''Workflow is disabled'', ''Workflow has no nodes'',
        no_trigger_message]"
proof (intro conjI impI)
  assume "fst (select_workflow h i) = None \<or> snd (select_workflow h i) \<noteq> None"
  then show "executeWorkflow fuel h i w =
        Some (reported_failure h i (Date (now h (clock w))) (Error ''Workflow not found'')
                (started i w))"
    by (simp add: executeWorkflow_caught runChecked_not_found started_eq)
next
  assume "select_workflow h i = (Some wfl, None) \<and> \<not> enabled wfl"
  then show "executeWorkflow fuel h i w =
        Some (reported_failure h i (Date (now h (clock w))) (Error ''Workflow is disabled'')
                (started i w))"
    by (simp add: executeWorkflow_caught runChecked_disabled started_eq)
next
  assume "select_workflow h i = (Some wfl, None) \<and> enabled wfl
        \<and> (select_nodes h i = None \<or> select_nodes h i = Some [])"
  then show "executeWorkflow fuel h i w =
        Some (reported_failure h i (Date (now h (clock w))) (Error ''Workflow has no nodes'')
                (started i w))"
    by (simp add: executeWorkflow_caught runChecked_no_nodes started_eq)
next
  assume "select_workflow h i = (Some wfl, None) \<and> enabled wfl
        \<and> select_nodes h i = Some ns \<and> ns \<noteq> []
        \<and> (\<forall>n\<in>set ns. node_type n \<noteq> ''trigger'')"
  then show "executeWorkflow fuel h i w =
        Some (reported_failure h i (Date (now h (clock w))) (Error no_trigger_message)
                (started i w))"
    by (simp add: executeWorkflow_caught runChecked_no_trigger started_eq)
qed (simp_all add: reported_failure_def logExecution_inserted logExecution_visits
       console_error_def visits_append started_def no_trigger_message_def)

theorem preconditions_in_order_witness:
  "executeWorkflow 0 (sample_host [plain_action, plain_transform] []) ''w'' sample_world =
     Some (Failure ''run-1'' (Error no_trigger_message),
           \<lparr>clock = 2,
            console = [Starting ''w'', ExecutionFailed (Error no_trigger_message)],
            inserted = [\<lparr>execution_id = ''run-1'', of_workflow = ''w'', status = ''failed'',
                         error_message = Some (Error no_trigger_message),
                         execution_data = None, started_at = Date 0, ended_at = Date 1\<rparr>]\<rparr>)
   \<and> map_option fst (executeWorkflow 0
        ((sample_host [] []) \<lparr>select_workflow := (\<lambda>i. (None, Some ''no rows''))\<rparr>) ''w''
        sample_world) = Some (Failure ''run-1'' (Error ''Workflow not found''))
   \<and> map_option fst (executeWorkflow 0
        ((sample_host [] [])
           \<lparr>select_workflow := (\<lambda>i. (Some \<lparr>workflow_id = i, enabled = False\<rparr>, None))\<rparr>) ''w''
        sample_world) = Some (Failure ''run-1'' (Error ''Workflow is disabled''))
   \<and> map_option fst (executeWorkflow 0 (sample_host [] []) ''w'' sample_world) =
        Some (Failure ''run-1'' (Error ''Workflow has no nodes''))"
proof -
  let ?h4 = "sample_host [plain_action, plain_transform] []"
  let ?h1 = "(sample_host [] []) \<lparr>select_workflow := (\<lambda>i. (None, Some ''no rows''))\<rparr>"
  let ?h2 = "(sample_host [] [])
           \<lparr>select_workflow := (\<lambda>i. (Some \<lparr>workflow_id = i, enabled = False\<rparr>, None))\<rparr>"
  let ?h3 = "sample_host [] []"
  have 4: "executeWorkflow 0 ?h4 ''w'' sample_world =
        Some (reported_failure ?h4 ''w'' (Date (now ?h4 (clock sample_world)))
                (Error no_trigger_message) (started ''w'' sample_world))"
    using preconditions_in_order [of ?h4 "''w''" 0 sample_world
        "\<lparr>workflow_id = ''w'', enabled = True\<rparr>" "[plain_action, plain_transform]"]
    by (simp add: sample_defs)
  have 1: "executeWorkflow 0 ?h1 ''w'' sample_world =
        Some (reported_failure ?h1 ''w'' (Date (now ?h1 (clock sample_world)))
                (Error ''Workflow not found'') (started ''w'' sample_world))"
    using preconditions_in_order [of ?h1 "''w''" 0 sample_world]
    by (simp add: sample_defs)
  have 2: "executeWorkflow 0 ?h2 ''w'' sample_world =
        Some (reported_failure ?h2 ''w'' (Date (now ?h2 (clock sample_world)))
                (Error ''Workflow is disabled'') (started ''w'' sample_world))"
    using preconditions_in_order [of ?h2 "''w''" 0 sample_world
        "\<lparr>workflow_id = ''w'', enabled = False\<rparr>"]
    by (simp add: sample_defs)
  have 3: "executeWorkflow 0 ?h3 ''w'' sample_world =
        Some (reported_failure ?h3 ''w'' (Date (now ?h3 (clock sample_world)))
                (Error ''Workflow has no nodes'') (started ''w'' sample_world))"
    using preconditions_in_order [of ?h3 "''w''" 0 sample_world
        "\<lparr>workflow_id = ''w'', enabled = True\<rparr>"]
    by (simp add: sample_defs)
  show ?thesis
    unfolding 1 2 3 4
    by (simp add: reported_failure_def started_def logExecution_def new_Date_def
        console_error_def sample_host_def sample_world_def Let_def)
qed

lemma dispatch_insert_error:
  "dispatch (h\<lparr>insert_error := f\<rparr>) n ed w = dispatch h n ed w"
  by (simp add: dispatch_def executeTrigger_def executeDataNode_def executeTransform_def
      executeAction_def summarizeData_def JSON_stringify_def new_Date_def Let_def
      cong: sum.case_cong prod.case_cong if_cong)

lemma executeNode_insert_error:
  "executeNode fuel (h\<lparr>insert_error := f\<rparr>) n adj nodes ed w = executeNode fuel h n adj nodes ed w"
  "forConnected fuel (h\<lparr>insert_error := f\<rparr>) ids adj nodes ed w =
     forConnected fuel h ids adj nodes ed w"
proof (induction fuel h n adj nodes ed w and fuel h ids adj nodes ed w
       rule: executeNode_forConnected.induct)
  case (1 h n adjacencyMap nodes executionData w)
  show ?case by simp
next
  case (2 fuel h n adjacencyMap nodes executionData w)
  then show ?case
    by (simp add: dispatch_insert_error split: prod.splits sum.splits option.splits)
next
  case (3 fuel h adjacencyMap nodes executionData w)
  show ?case by simp
next
  case (4 fuel h nextNodeId rest adjacencyMap nodes executionData w)
  then show ?case
    by (simp split: prod.splits sum.splits option.splits)
qed

lemma runChecked_insert_error:
  "runChecked fuel (h\<lparr>insert_error := f\<rparr>) i w = runChecked fuel h i w"
  by (simp add: runChecked_def executeNode_insert_error Let_def
      cong: sum.case_cong prod.case_cong option.case_cong if_cong)

text \<open>
  C9.  The answer of the store to the insertion of the execution record does not change
  what \<open>executeWorkflow\<close> returns: with any other answers the outcome is the same; a run
  whose traversal returned normally reports success with the execution identifier and
  the final context, whatever the store answers; and \<open>logExecution\<close> writes the store's
  error message to the console and does nothing else with it.
\<close>

theorem persistence_failure_not_propagated:
  "map_option fst (executeWorkflow fuel (h\<lparr>insert_error := f\<rparr>) i w) =
     map_option fst (executeWorkflow fuel h i w)
   \<and> (runChecked fuel h i (w\<lparr>clock := Suc (clock w)\<rparr>) = Some (Inr ed, w1) \<longrightarrow>
        map_option fst (executeWorkflow fuel (h\<lparr>insert_error := f\<rparr>) i w) =
          Some (Success (uuidv4 h) ed))
   \<and> console (logExecution h i x st em ed' t w2) =
        console w2 @
          (case insert_error h \<lparr>execution_id = x, of_workflow = i, status = st,
                  error_message = em, execution_data = ed', started_at = t,
                  ended_at = Date (now h (clock w2))\<rparr> of
             None \<Rightarrow> [] | Some m \<Rightarrow> [FailedToLog m])"
proof (intro conjI impI)
  show "map_option fst (executeWorkflow fuel (h\<lparr>insert_error := f\<rparr>) i w) =
     map_option fst (executeWorkflow fuel h i w)"
    by (simp add: executeWorkflow_def runChecked_insert_error new_Date_def Let_def
        split: option.splits prod.splits sum.splits)
next
  assume "runChecked fuel h i (w\<lparr>clock := Suc (clock w)\<rparr>) = Some (Inr ed, w1)"
  then show "map_option fst (executeWorkflow fuel (h\<lparr>insert_error := f\<rparr>) i w) =
          Some (Success (uuidv4 h) ed)"
    by (simp add: executeWorkflow_def runChecked_insert_error new_Date_def Let_def)
next
  show "console (logExecution h i x st em ed' t w2) =
        console w2 @
          (case insert_error h \<lparr>execution_id = x, of_workflow = i, status = st,
                  error_message = em, execution_data = ed', started_at = t,
                  ended_at = Date (now h (clock w2))\<rparr> of
             None \<Rightarrow> [] | Some m \<Rightarrow> [FailedToLog m])"
    by (rule logExecution_console)
qed

theorem persistence_failure_not_propagated_witness:
  "runChecked 5 (sample_host [plain_trigger, plain_action] [link ''t'' ''a'']) ''w''
      (sample_world\<lparr>clock := Suc (clock sample_world)\<rparr>) =
     Some (Inr [(''t'', TriggerEnvelope (Date 1) []),
                (''a'', ActionEnvelope None (ActionMessage ''Action not configured'') (Date 2))],
           \<lparr>clock = 3,
            console = [Starting ''w'', ExecutingNode ''Start'' ''trigger'',
                       TriggerLine (JStr ''scheduled''), ExecutingNode ''Notify'' ''action'',
                       ActionLine (JStr ''unknown'')],
            inserted = []\<rparr>)
   \<and> map_option fst (executeWorkflow 5
        ((sample_host [plain_trigger, plain_action] [link ''t'' ''a''])
           \<lparr>insert_error := storage_down\<rparr>) ''w'' sample_world) =
     Some (Success ''run-1''
       [(''t'', TriggerEnvelope (Date 1) []),
        (''a'', ActionEnvelope None (ActionMessage ''Action not configured'') (Date 2))])
   \<and> map_option (console \<circ> snd) (executeWorkflow 5
        ((sample_host [plain_trigger, plain_action] [link ''t'' ''a''])
           \<lparr>insert_error := storage_down\<rparr>) ''w'' sample_world) =
     Some [Starting ''w'', ExecutingNode ''Start'' ''trigger'',
           TriggerLine (JStr ''scheduled''), ExecutingNode ''Notify'' ''action'',
           ActionLine (JStr ''unknown''), FailedToLog ''connection refused'', Completed ''w'']"
proof -
  let ?h = "sample_host [plain_trigger, plain_action] [link ''t'' ''a'']"
  let ?ed = "[(''t'', TriggerEnvelope (Date 1) []),
              (''a'', ActionEnvelope None (ActionMessage ''Action not configured'') (Date 2))]"
  let ?w1 = "\<lparr>clock = 3,
            console = [Starting ''w'', ExecutingNode ''Start'' ''trigger'',
                       TriggerLine (JStr ''scheduled''), ExecutingNode ''Notify'' ''action'',
                       ActionLine (JStr ''unknown'')],
            inserted = []\<rparr>"
  have r: "runChecked 5 ?h ''w'' (sample_world\<lparr>clock := Suc (clock sample_world)\<rparr>) =
             Some (Inr ?ed, ?w1)"
    by (simp add: run_defs sample_defs)
  have s: "map_option fst (executeWorkflow 5 (?h\<lparr>insert_error := storage_down\<rparr>) ''w''
             sample_world) = Some (Success ''run-1'' ?ed)"
    using persistence_failure_not_propagated
            [where fuel = 5 and h = ?h and f = storage_down and i = "''w''"
               and w = sample_world and ed = ?ed and ?w1.0 = ?w1,
             THEN conjunct2, THEN conjunct1, THEN mp, OF r]
    by (simp add: sample_host_def)
  have c: "map_option (console \<circ> snd) (executeWorkflow 5
        (?h\<lparr>insert_error := storage_down\<rparr>) ''w'' sample_world) =
     Some [Starting ''w'', ExecutingNode ''Start'' ''trigger'',
           TriggerLine (JStr ''scheduled''), ExecutingNode ''Notify'' ''action'',
           ActionLine (JStr ''unknown''), FailedToLog ''connection refused'', Completed ''w'']"
    by (simp add: run_defs sample_defs storage_down_def)
  from r s c show ?thesis by simp
qed

subsection \<open>Unknown categories\<close>

lemma dispatch_unknown:
  "node_type n \<notin> {''trigger'', ''data'', ''transform'', ''action''} \<Longrightarrow>
   dispatch h n ed w = (Inl (Error (''Unknown node type: '' @ node_type n)), w)"
  by (simp add: dispatch_def)

lemma runChecked_traversal_throws:
  assumes "select_workflow h i = (Some wfl, None)" "enabled wfl" "select_nodes h i = Some ns"
    "find (\<lambda>n. node_type n = ''trigger'') ns = Some t"
    "buildAdjacencyMap ns (select_edges h i) = Inr adj"
    "executeNode fuel h t adj ns [] (console_log (Starting i) w0) = Some (Some e, ed', w1)"
  shows "runChecked fuel h i w0 = Some (Inl e, w1)"
proof -
  from assms(4) have "ns \<noteq> []" by auto
  with assms show ?thesis by (simp add: runChecked_def Let_def)
qed

subsection \<open>The context during a traversal\<close>



lemmas diamond_defs =
  diamond_host_def diamond_nodes_def diamond_edges_def diamond_map_def data_node_def
  diamond_entered_def diamond_midway_def diamond_final_def diamond_world_def
  not_configured_def successors_def

lemma diamond_map_built:
  "buildAdjacencyMap diamond_nodes (Some diamond_edges) = Inr diamond_map"
proof -
  have "\<forall>e\<in>set diamond_edges. source_node_id e \<in> node_id ` set diamond_nodes"
    by (simp add: diamond_defs sample_defs)
  from buildAdjacencyMap_closed_form [OF this] show ?thesis
    by (simp add: diamond_map_def fun_eq_iff)
qed


subsection \<open>Visits whose handler returns, and the linear chain\<close>

lemma dispatch_returns:
  assumes "recognised n" "\<not> (summarizes n \<and> circular ed)"
  shows "\<exists>env w'. dispatch h n ed w = (Inr env, w')
           \<and> clock w' = Suc (clock w) \<and> inserted w' = inserted w
           \<and> visits (console w') = visits (console w)
           \<and> stamp env = Date (now h (clock w)) \<and> kind env = node_type n
           \<and> holds_reference env = passes_context n"
proof -
  consider "node_type n = ''trigger''" | "node_type n = ''data''"
    | "node_type n = ''transform''" | "node_type n = ''action''"
    using assms(1) by (auto simp: recognised_def)
  then show ?thesis
  proof cases
    case 1
    then show ?thesis
      by (simp add: dispatch_def executeTrigger_def new_Date_def console_log_def
          visits_append passes_context_def)
  next
    case 2
    then show ?thesis
      by (simp add: dispatch_def executeDataNode_def new_Date_def console_log_def
          visits_append passes_context_def Let_def)
  next
    case 3
    then show ?thesis
      using assms(2)
      by (simp add: dispatch_def executeTransform_def summarizeData_def JSON_stringify_def
          filterData_def combineData_def new_Date_def console_log_def visits_append
          passes_context_def summarizes_def Let_def)
  next
    case 4
    then show ?thesis
      by (simp add: dispatch_def executeAction_def sendEmail_def sendSMS_def postToSocial_def
          new_Date_def console_log_def visits_append passes_context_def Let_def)
  qed
qed

lemma find_unique:
  assumes "x \<in> set xs" "P x" "\<And>y. y \<in> set xs \<Longrightarrow> P y \<Longrightarrow> y = x"
  shows "find P xs = Some x"
  using assms
proof (induction xs)
  case Nil
  then show ?case by simp
next
  case (Cons a xs)
  show ?case
  proof (cases "P a")
    case True
    have "a = x" by (rule Cons.prems(3)) (simp_all add: True)
    with True show ?thesis by simp
  next
    case False
    with Cons.prems(1,2) have "x \<in> set xs" by auto
    moreover have "\<And>y. y \<in> set xs \<Longrightarrow> P y \<Longrightarrow> y = x"
      by (rule Cons.prems(3)) simp_all
    ultimately have "find P xs = Some x"
      using Cons.prems(2) by (intro Cons.IH)
    with False show ?thesis by simp
  qed
qed

lemma successors_pairs:
  "successors es k = map snd (filter (\<lambda>p. fst p = k) (edge_pairs es))"
  by (induction es) (simp_all add: successors_def edge_pairs_def)

lemma mset_successors:
  "mset (successors es k) = image_mset snd (filter_mset (\<lambda>p. fst p = k) (mset (edge_pairs es)))"
  by (simp add: successors_pairs)

lemma sources_listed:
  assumes "fst ` set (edge_pairs es) \<subseteq> node_id ` set ns"
  shows "\<forall>e\<in>set es. source_node_id e \<in> node_id ` set ns"
proof
  fix e
  assume "e \<in> set es"
  then have "(source_node_id e, target_node_id e) \<in> set (edge_pairs es)"
    by (simp add: edge_pairs_def)
  then have "fst (source_node_id e, target_node_id e) \<in> fst ` set (edge_pairs es)"
    by (rule imageI)
  with assms show "source_node_id e \<in> node_id ` set ns"
    by auto
qed

lemma executeWorkflow_returned:
  "runChecked fuel h i (w\<lparr>clock := Suc (clock w)\<rparr>) = Some (Inr ed, w1) \<Longrightarrow>
   executeWorkflow fuel h i w =
     Some (Success (uuidv4 h) ed,
           console_log (Completed i)
             (logExecution h i (uuidv4 h) ''completed'' None (Some ed)
                (Date (now h (clock w))) w1))"
  by (simp add: executeWorkflow_def new_Date_def Let_def)

lemma runChecked_traversal_returns:
  assumes "select_workflow h i = (Some wfl, None)" "enabled wfl" "select_nodes h i = Some ns"
    "find (\<lambda>n. node_type n = ''trigger'') ns = Some t"
    "buildAdjacencyMap ns (select_edges h i) = Inr adj"
    "executeNode fuel h t adj ns [] (console_log (Starting i) w0) = Some (None, ed', w1)"
  shows "runChecked fuel h i w0 = Some (Inr ed', w1)"
proof -
  from assms(4) have "ns \<noteq> []" by auto
  with assms show ?thesis by (simp add: runChecked_def Let_def)
qed

text \<open>
  C1.  Take a workflow that is found and enabled, whose nodes are a trigger, a data node,
  a transform node and an action node with four different identifiers (in any order in
  the node list), and whose edges are exactly trigger to data, data to transform and
  transform to action (in any order in the edge list).  With fuel for a recursion of
  depth four, \<open>executeWorkflow\<close> returns success; the console shows the four visits in
  the order trigger, data, transform, action; the final context has exactly four
  entries, keyed by the four identifiers in that order, each holding the envelope of
  its node's category; and that context is what the completed execution record carries.
\<close>

theorem linear_chain:
  assumes store: "select_workflow h i = (Some wfl, None)" "enabled wfl"
      "select_nodes h i = Some ns" "select_edges h i = Some es"
    and nodes: "set ns = {t, d, x, a}"
      "distinct [node_id t, node_id d, node_id x, node_id a]"
    and cats: "node_type t = ''trigger''" "node_type d = ''data''"
      "node_type x = ''transform''" "node_type a = ''action''"
    and edges: "mset (edge_pairs es) =
      {#(node_id t, node_id d), (node_id d, node_id x), (node_id x, node_id a)#}"
    and fuel: "4 \<le> fuel"
  shows "\<exists>ed w'. executeWorkflow fuel h i w = Some (Success (uuidv4 h) ed, w')
     \<and> visits (console w') = visits (console w) @
          [(label t, ''trigger''), (label d, ''data''), (label x, ''transform''),
           (label a, ''action'')]
     \<and> map fst ed = [node_id t, node_id d, node_id x, node_id a]
     \<and> map (kind \<circ> snd) ed = [''trigger'', ''data'', ''transform'', ''action'']
     \<and> inserted w' = inserted w @
          [\<lparr>execution_id = uuidv4 h, of_workflow = i, status = ''completed'',
            error_message = None, execution_data = Some ed,
            started_at = Date (now h (clock w)), ended_at = Date (now h (clock w + 5))\<rparr>]"
proof -
  let ?T = "node_id t" and ?D = "node_id d" and ?X = "node_id x" and ?A = "node_id a"
  have neq: "?T \<noteq> ?D" "?T \<noteq> ?X" "?T \<noteq> ?A" "?D \<noteq> ?X" "?D \<noteq> ?A" "?X \<noteq> ?A"
    using nodes(2) by auto
  have ids: "node_id ` set ns = {?T, ?D, ?X, ?A}"
    by (simp add: nodes(1))
  have "set_mset (mset (edge_pairs es)) = {(?T, ?D), (?D, ?X), (?X, ?A)}"
    by (simp only: edges) simp
  then have pairs: "set (edge_pairs es) = {(?T, ?D), (?D, ?X), (?X, ?A)}"
    by simp
  have "fst ` set (edge_pairs es) \<subseteq> node_id ` set ns"
    by (simp add: pairs ids)
  then have src: "\<forall>e\<in>set es. source_node_id e \<in> node_id ` set ns"
    by (rule sources_listed)
  define adj where "adj = (\<lambda>k. if k \<in> node_id ` set ns then Some (successors es k) else None)"
  have build: "buildAdjacencyMap ns (select_edges h i) = Inr adj"
    unfolding adj_def store(4) by (rule buildAdjacencyMap_closed_form [OF src])
  have "mset (successors es ?T) = {#?D#}" "mset (successors es ?D) = {#?X#}"
    "mset (successors es ?X) = {#?A#}" "mset (successors es ?A) = {#}"
    using neq by (simp_all add: mset_successors edges)
  then have succ: "successors es ?T = [?D]" "successors es ?D = [?X]"
    "successors es ?X = [?A]" "successors es ?A = []"
    by simp_all
  have adj: "adj ?T = Some [?D]" "adj ?D = Some [?X]" "adj ?X = Some [?A]" "adj ?A = Some []"
    by (simp_all add: adj_def ids succ)
  have findT: "find (\<lambda>n. node_type n = ''trigger'') ns = Some t"
    by (rule find_unique) (use nodes(1) cats in auto)
  have findD: "find (\<lambda>n. node_id n = ?D) ns = Some d"
    by (rule find_unique) (use nodes(1) neq in auto)
  have findX: "find (\<lambda>n. node_id n = ?X) ns = Some x"
    by (rule find_unique) (use nodes(1) neq in auto)
  have findA: "find (\<lambda>n. node_id n = ?A) ns = Some a"
    by (rule find_unique) (use nodes(1) neq in auto)

  define w0 where "w0 = started i w"
  have w0: "clock w0 = Suc (clock w)" "inserted w0 = inserted w"
    "visits (console w0) = visits (console w)"
    by (simp_all add: w0_def started_def visits_append)

  have "recognised t" "\<not> (summarizes t \<and> circular [])"
    by (simp_all add: recognised_def summarizes_def cats)
  from dispatch_returns [OF this, of h "console_log (ExecutingNode (label t) (node_type t)) w0"]
  obtain e1 w1 where v1:
      "dispatch h t [] (console_log (ExecutingNode (label t) (node_type t)) w0) = (Inr e1, w1)"
    and s1: "clock w1 = clock w + 2" "inserted w1 = inserted w"
      "visits (console w1) = visits (console w) @ [(label t, ''trigger'')]"
    and k1: "kind e1 = ''trigger''" "\<not> holds_reference e1"
    by (auto simp: console_log_def visits_append cats passes_context_def w0)

  have "recognised d" "\<not> (summarizes d \<and> circular [(?T, e1)])"
    by (simp_all add: recognised_def summarizes_def cats)
  from dispatch_returns [OF this, of h "console_log (ExecutingNode (label d) (node_type d)) w1"]
  obtain e2 w2 where v2:
      "dispatch h d [(?T, e1)] (console_log (ExecutingNode (label d) (node_type d)) w1)
         = (Inr e2, w2)"
    and s2: "clock w2 = clock w + 3" "inserted w2 = inserted w"
      "visits (console w2) = visits (console w) @ [(label t, ''trigger''), (label d, ''data'')]"
    and k2: "kind e2 = ''data''" "\<not> holds_reference e2"
    by (auto simp: console_log_def visits_append cats passes_context_def s1)

  have "recognised x" "\<not> (summarizes x \<and> circular [(?T, e1), (?D, e2)])"
    by (simp_all add: recognised_def circular_def cats k1 k2)
  from dispatch_returns [OF this, of h "console_log (ExecutingNode (label x) (node_type x)) w2"]
  obtain e3 w3 where v3:
      "dispatch h x [(?T, e1), (?D, e2)]
         (console_log (ExecutingNode (label x) (node_type x)) w2) = (Inr e3, w3)"
    and s3: "clock w3 = clock w + 4" "inserted w3 = inserted w"
      "visits (console w3) = visits (console w) @
         [(label t, ''trigger''), (label d, ''data''), (label x, ''transform'')]"
    and k3: "kind e3 = ''transform''"
    by (auto simp: console_log_def visits_append cats s2)

  have "recognised a" "\<not> (summarizes a \<and> circular [(?T, e1), (?D, e2), (?X, e3)])"
    by (simp_all add: recognised_def summarizes_def cats)
  from dispatch_returns [OF this, of h "console_log (ExecutingNode (label a) (node_type a)) w3"]
  obtain e4 w4 where v4:
      "dispatch h a [(?T, e1), (?D, e2), (?X, e3)]
         (console_log (ExecutingNode (label a) (node_type a)) w3) = (Inr e4, w4)"
    and s4: "clock w4 = clock w + 5" "inserted w4 = inserted w"
      "visits (console w4) = visits (console w) @
         [(label t, ''trigger''), (label d, ''data''), (label x, ''transform''),
          (label a, ''action'')]"
    and k4: "kind e4 = ''action''"
    by (auto simp: console_log_def visits_append cats s3)

  let ?ed = "[(?T, e1), (?D, e2), (?X, e3), (?A, e4)]"
  have x4: "executeNode (Suc f) h a adj ns [(?T, e1), (?D, e2), (?X, e3)] w3 =
              Some (None, ?ed, w4)" for f
    using v4 adj(4) neq by simp
  have x3: "executeNode (Suc (Suc f)) h x adj ns [(?T, e1), (?D, e2)] w2 =
              Some (None, ?ed, w4)" for f
    using v3 adj(3) findA x4 [of f] neq by simp
  have x2: "executeNode (Suc (Suc (Suc f))) h d adj ns [(?T, e1)] w1 = Some (None, ?ed, w4)" for f
    using v2 adj(2) findX x3 [of f] neq by simp
  have x1: "executeNode (Suc (Suc (Suc (Suc f)))) h t adj ns [] w0 = Some (None, ?ed, w4)" for f
    using v1 adj(1) findD x2 [of f] by simp
  from fuel have "fuel = Suc (Suc (Suc (Suc (fuel - 4))))" by simp
  with x1 [of "fuel - 4"] have "executeNode fuel h t adj ns [] w0 = Some (None, ?ed, w4)"
    by simp
  then have "executeNode fuel h t adj ns [] (console_log (Starting i) (w\<lparr>clock := Suc (clock w)\<rparr>))
               = Some (None, ?ed, w4)"
    by (simp add: started_eq w0_def)
  with store(1-3) findT build
  have "runChecked fuel h i (w\<lparr>clock := Suc (clock w)\<rparr>) = Some (Inr ?ed, w4)"
    by (rule runChecked_traversal_returns)
  then have run: "executeWorkflow fuel h i w =
     Some (Success (uuidv4 h) ?ed,
           console_log (Completed i)
             (logExecution h i (uuidv4 h) ''completed'' None (Some ?ed)
                (Date (now h (clock w))) w4))"
    by (rule executeWorkflow_returned)
  show ?thesis
    unfolding run
    by (simp add: console_log_def visits_append logExecution_visits logExecution_inserted
        s4 k1 k2 k3 k4)
qed

theorem linear_chain_witness:
  "\<exists>ed w'. executeWorkflow 4 (sample_host chain_nodes chain_edges) ''w'' sample_world =
       Some (Success ''run-1'' ed, w')
     \<and> visits (console w') =
          [(''Start'', ''trigger''), (''Weather'', ''data''), (''Shape'', ''transform''),
           (''Notify'', ''action'')]
     \<and> map fst ed = [''t'', ''d'', ''x'', ''a'']
     \<and> map (kind \<circ> snd) ed = [''trigger'', ''data'', ''transform'', ''action'']
     \<and> inserted w' =
          [\<lparr>execution_id = ''run-1'', of_workflow = ''w'', status = ''completed'',
            error_message = None, execution_data = Some ed,
            started_at = Date 0, ended_at = Date 5\<rparr>]"
proof -
  let ?h = "sample_host chain_nodes chain_edges"
  have 1: "select_workflow ?h ''w'' = (Some \<lparr>workflow_id = ''w'', enabled = True\<rparr>, None)"
    "enabled \<lparr>workflow_id = ''w'', enabled = True\<rparr>"
    "select_nodes ?h ''w'' = Some chain_nodes" "select_edges ?h ''w'' = Some chain_edges"
    by (simp_all add: sample_host_def)
  have 2: "set chain_nodes = {plain_trigger, weather_node, plain_transform, plain_action}"
    "distinct [node_id plain_trigger, node_id weather_node, node_id plain_transform,
               node_id plain_action]"
    by (auto simp: chain_nodes_def sample_defs)
  have 3: "node_type plain_trigger = ''trigger''" "node_type weather_node = ''data''"
    "node_type plain_transform = ''transform''" "node_type plain_action = ''action''"
    by (simp_all add: sample_defs)
  have 4: "mset (edge_pairs chain_edges) =
      {#(node_id plain_trigger, node_id weather_node),
        (node_id weather_node, node_id plain_transform),
        (node_id plain_transform, node_id plain_action)#}"
    by (simp add: chain_edges_def edge_pairs_def sample_defs)
  have 5: "(4::nat) \<le> 4" by simp
  from linear_chain [OF 1 2 3 4 5, of sample_world]
  show ?thesis
    by (simp add: sample_defs)
qed

subsection \<open>The diamond\<close>

text \<open>
  On the diamonds below the run re-executes and overwrites.  Take a workflow that is
  found and enabled, whose nodes are a trigger \<open>t\<close> and three nodes \<open>a\<close>, \<open>b\<close>, \<open>c\<close> of the
  categories data, transform or action, with four different identifiers, and whose edges
  are exactly \<open>t\<close> to \<open>a\<close>, \<open>t\<close> to \<open>b\<close>, \<open>a\<close> to \<open>c\<close> and \<open>b\<close> to \<open>c\<close>, the edge to \<open>a\<close> before
  the edge to \<open>b\<close>.  Suppose that no summarize transform runs on a context that holds the
  payload of a transform of another subtype.  Then, with fuel for a recursion of depth
  three, \<open>executeWorkflow\<close> returns success; the visits are \<open>t\<close>, \<open>a\<close>, \<open>c\<close>, \<open>b\<close>, \<open>c\<close>, so
  \<open>c\<close> is executed once for each edge that enters it; the final context has one entry for
  each of the four identifiers; and the entry of \<open>c\<close> is the envelope of the second visit,
  the one through \<open>b\<close>: its time is the sixth reading of the clock in the run, not the
  fourth.
\<close>

lemma diamond_revisits:
  assumes store: "select_workflow h i = (Some wfl, None)" "enabled wfl"
      "select_nodes h i = Some ns" "select_edges h i = Some es"
    and nodes: "set ns = {t, a, b, c}"
      "distinct [node_id t, node_id a, node_id b, node_id c]"
    and cats: "node_type t = ''trigger''"
      "node_type a \<in> {''data'', ''transform'', ''action''}"
      "node_type b \<in> {''data'', ''transform'', ''action''}"
      "node_type c \<in> {''data'', ''transform'', ''action''}"
    and safe: "\<not> (summarizes c \<and> (passes_context a \<or> passes_context b))"
      "\<not> (summarizes b \<and> (passes_context a \<or> passes_context c))"
    and edges: "mset (edge_pairs es) =
      {#(node_id t, node_id a), (node_id t, node_id b), (node_id a, node_id c),
        (node_id b, node_id c)#}"
      "successors es (node_id t) = [node_id a, node_id b]"
    and fuel: "3 \<le> fuel"
  shows "\<exists>ed w' env. executeWorkflow fuel h i w = Some (Success (uuidv4 h) ed, w')
     \<and> visits (console w') = visits (console w) @
          [(label t, ''trigger''), (label a, node_type a), (label c, node_type c),
           (label b, node_type b), (label c, node_type c)]
     \<and> map fst ed = [node_id t, node_id a, node_id c, node_id b]
     \<and> map_of ed (node_id c) = Some env
     \<and> stamp env = Date (now h (clock w + 5))"
proof -
  let ?T = "node_id t" and ?A = "node_id a" and ?B = "node_id b" and ?C = "node_id c"
  have neq: "?T \<noteq> ?A" "?T \<noteq> ?B" "?T \<noteq> ?C" "?A \<noteq> ?B" "?A \<noteq> ?C" "?B \<noteq> ?C"
    using nodes(2) by auto
  have ids: "node_id ` set ns = {?T, ?A, ?B, ?C}"
    by (simp add: nodes(1))
  have "set_mset (mset (edge_pairs es)) = {(?T, ?A), (?T, ?B), (?A, ?C), (?B, ?C)}"
    by (simp only: edges(1)) simp
  then have pairs: "set (edge_pairs es) = {(?T, ?A), (?T, ?B), (?A, ?C), (?B, ?C)}"
    by simp
  have "fst ` set (edge_pairs es) \<subseteq> node_id ` set ns"
    by (simp add: pairs ids)
  then have src: "\<forall>e\<in>set es. source_node_id e \<in> node_id ` set ns"
    by (rule sources_listed)
  define adj where "adj = (\<lambda>k. if k \<in> node_id ` set ns then Some (successors es k) else None)"
  have build: "buildAdjacencyMap ns (select_edges h i) = Inr adj"
    unfolding adj_def store(4) by (rule buildAdjacencyMap_closed_form [OF src])
  have "mset (successors es ?A) = {#?C#}" "mset (successors es ?B) = {#?C#}"
    "mset (successors es ?C) = {#}"
    using neq by (simp_all add: mset_successors edges(1))
  then have succ: "successors es ?A = [?C]" "successors es ?B = [?C]" "successors es ?C = []"
    by simp_all
  have adj: "adj ?T = Some [?A, ?B]" "adj ?A = Some [?C]" "adj ?B = Some [?C]"
    "adj ?C = Some []"
    by (simp_all add: adj_def ids succ edges(2))
  have trig: "node_type a \<noteq> ''trigger''" "node_type b \<noteq> ''trigger''"
    "node_type c \<noteq> ''trigger''"
    using cats(2-4) by auto
  have rec: "recognised a" "recognised b" "recognised c"
    using cats(2-4) by (auto simp: recognised_def)
  have findT: "find (\<lambda>n. node_type n = ''trigger'') ns = Some t"
    by (rule find_unique) (use nodes(1) cats(1) trig in auto)
  have findA: "find (\<lambda>n. node_id n = ?A) ns = Some a"
    by (rule find_unique) (use nodes(1) neq in auto)
  have findB: "find (\<lambda>n. node_id n = ?B) ns = Some b"
    by (rule find_unique) (use nodes(1) neq in auto)
  have findC: "find (\<lambda>n. node_id n = ?C) ns = Some c"
    by (rule find_unique) (use nodes(1) neq in auto)
  have sc: "summarizes c \<Longrightarrow> \<not> passes_context c"
    by (simp add: summarizes_def passes_context_def)

  define w0 where "w0 = started i w"
  have w0: "clock w0 = Suc (clock w)" "visits (console w0) = visits (console w)"
    by (simp_all add: w0_def started_def visits_append)

  have "recognised t" "\<not> (summarizes t \<and> circular [])"
    by (simp_all add: recognised_def summarizes_def cats)
  from dispatch_returns [OF this, of h "console_log (ExecutingNode (label t) (node_type t)) w0"]
  obtain e1 w1 where v1:
      "dispatch h t [] (console_log (ExecutingNode (label t) (node_type t)) w0) = (Inr e1, w1)"
    and s1: "clock w1 = clock w + 2"
      "visits (console w1) = visits (console w) @ [(label t, ''trigger'')]"
    and k1: "\<not> holds_reference e1"
    by (auto simp: console_log_def visits_append cats passes_context_def w0)

  have "\<not> (summarizes a \<and> circular [(?T, e1)])"
    by (simp add: circular_def k1)
  from dispatch_returns [OF rec(1) this, of h
      "console_log (ExecutingNode (label a) (node_type a)) w1"]
  obtain e2 w2 where v2:
      "dispatch h a [(?T, e1)] (console_log (ExecutingNode (label a) (node_type a)) w1)
         = (Inr e2, w2)"
    and s2: "clock w2 = clock w + 3"
      "visits (console w2) = visits (console w) @
         [(label t, ''trigger''), (label a, node_type a)]"
    and k2: "holds_reference e2 = passes_context a"
    by (auto simp: console_log_def visits_append s1)

  have "\<not> (summarizes c \<and> circular [(?T, e1), (?A, e2)])"
    using safe(1) by (simp add: circular_def k1 k2)
  from dispatch_returns [OF rec(3) this, of h
      "console_log (ExecutingNode (label c) (node_type c)) w2"]
  obtain e3 w3 where v3:
      "dispatch h c [(?T, e1), (?A, e2)]
         (console_log (ExecutingNode (label c) (node_type c)) w2) = (Inr e3, w3)"
    and s3: "clock w3 = clock w + 4"
      "visits (console w3) = visits (console w) @
         [(label t, ''trigger''), (label a, node_type a), (label c, node_type c)]"
    and k3: "holds_reference e3 = passes_context c"
    by (auto simp: console_log_def visits_append s2)

  have "\<not> (summarizes b \<and> circular [(?T, e1), (?A, e2), (?C, e3)])"
    using safe(2) by (simp add: circular_def k1 k2 k3)
  from dispatch_returns [OF rec(2) this, of h
      "console_log (ExecutingNode (label b) (node_type b)) w3"]
  obtain e4 w4 where v4:
      "dispatch h b [(?T, e1), (?A, e2), (?C, e3)]
         (console_log (ExecutingNode (label b) (node_type b)) w3) = (Inr e4, w4)"
    and s4: "clock w4 = clock w + 5"
      "visits (console w4) = visits (console w) @
         [(label t, ''trigger''), (label a, node_type a), (label c, node_type c),
          (label b, node_type b)]"
    and k4: "holds_reference e4 = passes_context b"
    by (auto simp: console_log_def visits_append s3)

  have "\<not> (summarizes c \<and> circular [(?T, e1), (?A, e2), (?C, e3), (?B, e4)])"
    using safe(1) sc by (auto simp: circular_def k1 k2 k3 k4)
  from dispatch_returns [OF rec(3) this, of h
      "console_log (ExecutingNode (label c) (node_type c)) w4"]
  obtain e5 w5 where v5:
      "dispatch h c [(?T, e1), (?A, e2), (?C, e3), (?B, e4)]
         (console_log (ExecutingNode (label c) (node_type c)) w4) = (Inr e5, w5)"
    and s5: "visits (console w5) = visits (console w) @
         [(label t, ''trigger''), (label a, node_type a), (label c, node_type c),
          (label b, node_type b), (label c, node_type c)]"
    and k5: "stamp e5 = Date (now h (clock w + 5))"
    by (auto simp: console_log_def visits_append s4)

  let ?mid = "[(?T, e1), (?A, e2), (?C, e3)]"
  let ?ed = "[(?T, e1), (?A, e2), (?C, e5), (?B, e4)]"
  have c1: "executeNode (Suc f) h c adj ns [(?T, e1), (?A, e2)] w2 = Some (None, ?mid, w3)" for f
    using v3 adj(4) neq by simp
  have xa: "executeNode (Suc (Suc f)) h a adj ns [(?T, e1)] w1 = Some (None, ?mid, w3)" for f
    using v2 adj(2) findC c1 [of f] neq by simp
  have c2: "executeNode (Suc f) h c adj ns [(?T, e1), (?A, e2), (?C, e3), (?B, e4)] w4 =
              Some (None, ?ed, w5)" for f
    using v5 adj(4) neq by simp
  have xb: "executeNode (Suc (Suc f)) h b adj ns ?mid w3 = Some (None, ?ed, w5)" for f
    using v4 adj(3) findC c2 [of f] neq by simp
  have xt: "executeNode (Suc (Suc (Suc f))) h t adj ns [] w0 = Some (None, ?ed, w5)" for f
    using v1 adj(1) findA findB xa [of f] xb [of f] by simp
  from fuel have "fuel = Suc (Suc (Suc (fuel - 3)))" by simp
  with xt [of "fuel - 3"] have "executeNode fuel h t adj ns [] w0 = Some (None, ?ed, w5)"
    by simp
  then have "executeNode fuel h t adj ns [] (console_log (Starting i) (w\<lparr>clock := Suc (clock w)\<rparr>))
               = Some (None, ?ed, w5)"
    by (simp add: started_eq w0_def)
  with store(1-3) findT build
  have "runChecked fuel h i (w\<lparr>clock := Suc (clock w)\<rparr>) = Some (Inr ?ed, w5)"
    by (rule runChecked_traversal_returns)
  then have run: "executeWorkflow fuel h i w =
     Some (Success (uuidv4 h) ?ed,
           console_log (Completed i)
             (logExecution h i (uuidv4 h) ''completed'' None (Some ?ed)
                (Date (now h (clock w))) w5))"
    by (rule executeWorkflow_returned)
  show ?thesis
    unfolding run
    using neq by (simp add: console_log_def visits_append logExecution_visits s5 k5)
qed

lemma diamond_revisits_sample:
  "\<exists>ed w' env. executeWorkflow 3 diamond_host ''w'' sample_world =
       Some (Success ''run-1'' ed, w')
     \<and> visits (console w') =
          [(''Start'', ''trigger''), (''A'', ''data''), (''C'', ''data''), (''B'', ''data''),
           (''C'', ''data'')]
     \<and> map fst ed = [''t'', ''a'', ''c'', ''b'']
     \<and> map_of ed ''c'' = Some env
     \<and> stamp env = Date 5"
proof -
  let ?a = "data_node ''a'' ''A''" and ?b = "data_node ''b'' ''B''"
    and ?c = "data_node ''c'' ''C''"
  have 1: "select_workflow diamond_host ''w'' =
             (Some \<lparr>workflow_id = ''w'', enabled = True\<rparr>, None)"
    "enabled \<lparr>workflow_id = ''w'', enabled = True\<rparr>"
    "select_nodes diamond_host ''w'' = Some diamond_nodes"
    "select_edges diamond_host ''w'' = Some diamond_edges"
    by (simp_all add: diamond_host_def sample_host_def)
  have 2: "set diamond_nodes = {plain_trigger, ?a, ?b, ?c}"
    "distinct [node_id plain_trigger, node_id ?a, node_id ?b, node_id ?c]"
    by (auto simp: diamond_nodes_def data_node_def sample_defs)
  have 3: "node_type plain_trigger = ''trigger''"
    "node_type ?a \<in> {''data'', ''transform'', ''action''}"
    "node_type ?b \<in> {''data'', ''transform'', ''action''}"
    "node_type ?c \<in> {''data'', ''transform'', ''action''}"
    by (simp_all add: data_node_def sample_defs)
  have 4: "\<not> (summarizes ?c \<and> (passes_context ?a \<or> passes_context ?b))"
    "\<not> (summarizes ?b \<and> (passes_context ?a \<or> passes_context ?c))"
    by (simp_all add: summarizes_def data_node_def)
  have 5: "mset (edge_pairs diamond_edges) =
      {#(node_id plain_trigger, node_id ?a), (node_id plain_trigger, node_id ?b),
        (node_id ?a, node_id ?c), (node_id ?b, node_id ?c)#}"
    "successors diamond_edges (node_id plain_trigger) = [node_id ?a, node_id ?b]"
    by (simp_all add: diamond_edges_def edge_pairs_def successors_def data_node_def sample_defs)
  have 6: "(3::nat) \<le> 3" by simp
  from diamond_revisits [OF 1 2 3 4 5 6, of sample_world]
  show ?thesis
    by (simp add: data_node_def sample_defs diamond_host_def)
qed

text \<open>
  C3.  Not every diamond of recognised nodes runs to success, although nothing in the
  engine means such a run to fail.  In this diamond \<open>a\<close> is a filter transform, whose
  payload \<open>{ filtered: executionData }\<close> is the context object itself; once it is stored
  the context contains itself, and when the summarize transform \<open>c\<close> is visited
  \<open>JSON.stringify(executionData)\<close> throws.  The run returns a failure.
\<close>

theorem diamond_fails:
  "map_option fst (executeWorkflow 3 (sample_host failing_diamond diamond_edges) ''w''
      sample_world) = Some (Failure ''run-1'' (TypeError CircularStructure))"
  by (simp add: run_defs sample_defs diamond_defs failing_diamond_def filter_node_def
      summarize_node_def)

subsection \<open>Termination of the traversal\<close>

lemma find_SomeD:
  "find P xs = Some x \<Longrightarrow> P x"
  by (induction xs) (auto split: if_splits)

lemma addEdges_fail:
  "\<exists>e\<in>set es. source_node_id e \<notin> dom m \<Longrightarrow> addEdges es m = Inl (TypeError PushOfUndefined)"
proof (induction es arbitrary: m)
  case Nil
  then show ?case by simp
next
  case (Cons e es)
  show ?case
  proof (cases "m (source_node_id e)")
    case None
    then show ?thesis by simp
  next
    case (Some ts)
    from Cons.prems obtain e' where e': "e' \<in> set (e # es)" "source_node_id e' \<notin> dom m"
      by blast
    with Some have "e' \<in> set es" "source_node_id e' \<noteq> source_node_id e" by auto
    with e' have "\<exists>e'\<in>set es. source_node_id e' \<notin> dom (m(source_node_id e \<mapsto> ts @ [target_node_id e]))"
      by auto
    then have "addEdges es (m(source_node_id e \<mapsto> ts @ [target_node_id e])) =
                 Inl (TypeError PushOfUndefined)"
      by (rule Cons.IH)
    then show ?thesis by (simp add: Some)
  qed
qed

lemma buildAdjacencyMap_Inr:
  assumes "buildAdjacencyMap nodes (Some es) = Inr adj"
  shows "adj = (\<lambda>k. if k \<in> node_id ` set nodes then Some (successors es k) else None)"
proof (cases "\<forall>e\<in>set es. source_node_id e \<in> node_id ` set nodes")
  case True
  from buildAdjacencyMap_closed_form [OF True] assms show ?thesis by simp
next
  case False
  let ?m = "fold (\<lambda>n m. m(node_id n \<mapsto> [])) nodes Map.empty"
  have d: "dom ?m = node_id ` set nodes"
    by (auto simp: init_map dom_def)
  have "addEdges es ?m = Inl (TypeError PushOfUndefined)"
    by (rule addEdges_fail) (use False in \<open>simp add: d\<close>)
  with assms show ?thesis by (simp add: buildAdjacencyMap_def)
qed

lemma forConnected_more_fuel:
  assumes step: "\<And>m ed w r. executeNode f h m adj nodes ed w = Some r \<Longrightarrow>
                   executeNode (Suc f) h m adj nodes ed w = Some r"
  shows "forConnected f h ids adj nodes ed w = Some r \<Longrightarrow>
         forConnected (Suc f) h ids adj nodes ed w = Some r"
proof (induction ids arbitrary: ed w)
  case Nil
  then show ?case by simp
next
  case (Cons k ids)
  show ?case
  proof (cases "find (\<lambda>n. node_id n = k) nodes")
    case None
    with Cons show ?thesis by simp
  next
    case (Some m)
    note fm = Some
    show ?thesis
    proof (cases "executeNode f h m adj nodes ed w")
      case None
      with fm Cons.prems show ?thesis by simp
    next
      case (Some res)
      obtain e ed1 w1 where res: "res = (e, ed1, w1)" by (cases res)
      from step [OF Some] have s: "executeNode (Suc f) h m adj nodes ed w = Some (e, ed1, w1)"
        by (simp add: res)
      show ?thesis
      proof (cases e)
        case None
        from Cons.prems have
          "forConnected f h ids adj nodes ed1 w1 = Some r"
          by (simp add: fm Some res None)
        then have "forConnected (Suc f) h ids adj nodes ed1 w1 = Some r" by (rule Cons.IH)
        then show ?thesis
          by (simp add: fm s None del: executeNode.simps)
      next
        case (Some err)
        from Cons.prems have "r = (Some err, ed1, w1)"
          by (simp add: fm \<open>executeNode f h m adj nodes ed w = Some res\<close> res Some)
        then show ?thesis
          by (simp add: fm s Some del: executeNode.simps)
      qed
    qed
  qed
qed

lemma executeNode_more_fuel:
  "executeNode f h n adj nodes ed w = Some r \<Longrightarrow> executeNode (Suc f) h n adj nodes ed w = Some r"
proof (induction f arbitrary: n ed w r)
  case 0
  then show ?case by simp
next
  case (Suc f)
  obtain res w1 where d:
    "dispatch h n ed (console_log (ExecutingNode (label n) (node_type n)) w) = (res, w1)"
    by (cases "dispatch h n ed (console_log (ExecutingNode (label n) (node_type n)) w)")
  show ?case
  proof (cases res)
    case (Inl e)
    with d Suc.prems show ?thesis by simp
  next
    case (Inr env)
    show ?thesis
    proof (cases "adj (node_id n)")
      case None
      with d Inr Suc.prems show ?thesis by simp
    next
      case (Some ids)
      let ?ed = "AList.update (node_id n) env ed"
      from d Inr Some Suc.prems obtain r1 where
        f: "forConnected f h ids adj nodes ?ed w1 = Some r1"
        by (cases "forConnected f h ids adj nodes ?ed w1") auto
      have "forConnected (Suc f) h ids adj nodes ?ed w1 = Some r1"
        by (rule forConnected_more_fuel [OF Suc.IH f])
      with d Inr Some Suc.prems f show ?thesis
        by (simp del: forConnected.simps)
    qed
  qed
qed

lemma executeNode_fuel_mono:
  assumes "executeNode f h n adj nodes ed w \<noteq> None" "f \<le> f'"
  shows "executeNode f' h n adj nodes ed w \<noteq> None"
proof -
  from assms(1) obtain r where r: "executeNode f h n adj nodes ed w = Some r" by auto
  have "executeNode (f + k) h n adj nodes ed w = Some r" for k
  proof (induction k)
    case 0
    show ?case by (simp add: r)
  next
    case (Suc k)
    from executeNode_more_fuel [OF Suc] show ?case by (simp only: add_Suc_right)
  qed
  from this [of "f' - f"] assms(2) show ?thesis by simp
qed

lemma forConnected_returns:
  assumes "\<And>k m ed w. k \<in> set ids \<Longrightarrow> find (\<lambda>x. node_id x = k) nodes = Some m \<Longrightarrow>
             executeNode f h m adj nodes ed w \<noteq> None"
  shows "forConnected f h ids adj nodes ed w \<noteq> None"
  using assms
proof (induction ids arbitrary: ed w)
  case Nil
  show ?case by simp
next
  case (Cons k ids)
  have rest: "forConnected f h ids adj nodes ed' w' \<noteq> None" for ed' w'
    by (rule Cons.IH) (rule Cons.prems, simp_all)
  show ?case
  proof (cases "find (\<lambda>n. node_id n = k) nodes")
    case None
    with rest show ?thesis by simp
  next
    case (Some m)
    then have "executeNode f h m adj nodes ed w \<noteq> None"
      by (intro Cons.prems [of k]) simp_all
    then obtain e ed1 w1 where "executeNode f h m adj nodes ed w = Some (e, ed1, w1)"
      by (cases "executeNode f h m adj nodes ed w") auto
    with Some rest [of ed1 w1] show ?thesis
      by (cases e) (simp_all del: executeNode.simps)
  qed
qed

lemma executeNode_returns:
  assumes "\<And>ids k m ed w. adj (node_id n) = Some ids \<Longrightarrow> k \<in> set ids \<Longrightarrow>
             find (\<lambda>x. node_id x = k) nodes = Some m \<Longrightarrow>
             executeNode f h m adj nodes ed w \<noteq> None"
  shows "executeNode (Suc f) h n adj nodes ed w \<noteq> None"
proof -
  obtain res w1 where d:
    "dispatch h n ed (console_log (ExecutingNode (label n) (node_type n)) w) = (res, w1)"
    by (cases "dispatch h n ed (console_log (ExecutingNode (label n) (node_type n)) w)")
  show ?thesis
  proof (cases res)
    case (Inl e)
    with d show ?thesis by simp
  next
    case (Inr env)
    show ?thesis
    proof (cases "adj (node_id n)")
      case None
      with d Inr show ?thesis by simp
    next
      case (Some ids)
      have "forConnected f h ids adj nodes (AList.update (node_id n) env ed) w1 \<noteq> None"
        by (rule forConnected_returns) (rule assms [OF Some])
      with d Inr Some show ?thesis
        by (auto simp del: forConnected.simps split: option.splits)
    qed
  qed
qed

lemma common_fuel:
  assumes "\<And>k. k \<in> set ids \<Longrightarrow>
     \<exists>F. \<forall>(n::node) ed w. node_id n = k \<longrightarrow> executeNode F h n adj nodes ed w \<noteq> None"
  shows "\<exists>F. \<forall>k\<in>set ids. \<forall>(n::node) ed w. node_id n = k \<longrightarrow>
              executeNode F h n adj nodes ed w \<noteq> None"
  using assms
proof (induction ids)
  case Nil
  show ?case by simp
next
  case (Cons k ids)
  from Cons.prems [of k] obtain F1 where
    F1: "\<And>(n::node) ed w. node_id n = k \<Longrightarrow> executeNode F1 h n adj nodes ed w \<noteq> None"
    by auto
  have "\<exists>F. \<forall>k\<in>set ids. \<forall>(n::node) ed w. node_id n = k \<longrightarrow>
          executeNode F h n adj nodes ed w \<noteq> None"
    by (rule Cons.IH) (rule Cons.prems, simp)
  then obtain F2 where
    F2: "\<And>j (n::node) ed w. j \<in> set ids \<Longrightarrow> node_id n = j \<Longrightarrow>
           executeNode F2 h n adj nodes ed w \<noteq> None"
    by blast
  have "\<forall>j\<in>set (k # ids). \<forall>(n::node) ed w. node_id n = j \<longrightarrow>
          executeNode (max F1 F2) h n adj nodes ed w \<noteq> None"
  proof (intro ballI allI impI)
    fix j and n :: node and ed w
    assume j: "j \<in> set (k # ids)" and n: "node_id n = j"
    show "executeNode (max F1 F2) h n adj nodes ed w \<noteq> None"
    proof (cases "j = k")
      case True
      with n have "executeNode F1 h n adj nodes ed w \<noteq> None" by (intro F1) simp
      then show ?thesis by (rule executeNode_fuel_mono) simp
    next
      case False
      with j have "j \<in> set ids" by simp
      then have "executeNode F2 h n adj nodes ed w \<noteq> None" using n by (rule F2)
      then show ?thesis by (rule executeNode_fuel_mono) simp
    qed
  qed
  then show ?case ..
qed

lemma acyclic_terminates:
  assumes "acyclic (edge_rel es)" "buildAdjacencyMap nodes (Some es) = Inr adj"
  shows "\<exists>F. \<forall>(n::node) ed w. node_id n = k \<longrightarrow> executeNode F h n adj nodes ed w \<noteq> None"
proof -
  have adj: "adj = (\<lambda>k. if k \<in> node_id ` set nodes then Some (successors es k) else None)"
    by (rule buildAdjacencyMap_Inr [OF assms(2)])
  have "finite (edge_rel es)" by (simp add: edge_rel_def)
  then have "wf ((edge_rel es)\<inverse>)"
    using assms(1) by (rule finite_acyclic_wf_converse)
  then show ?thesis
  proof (induction k rule: wf_induct_rule)
    case (less k)
    show ?case
    proof (cases "adj k")
      case None
      have "executeNode (Suc 0) h n adj nodes ed w \<noteq> None" if "node_id n = k"
        for n :: node and ed w
        by (rule executeNode_returns) (simp add: that None)
      then show ?thesis by blast
    next
      case (Some ids)
      have "\<exists>F. \<forall>(n::node) ed w. node_id n = j \<longrightarrow>
               executeNode F h n adj nodes ed w \<noteq> None"
        if "j \<in> set ids" for j
      proof (rule less.IH)
        from Some that have "j \<in> set (successors es k)"
          by (auto simp: adj split: if_splits)
        then have "(k, j) \<in> edge_rel es"
          by (auto simp: successors_def edge_rel_def edge_pairs_def)
        then show "(j, k) \<in> (edge_rel es)\<inverse>" by simp
      qed
      then have "\<exists>F. \<forall>j\<in>set ids. \<forall>(n::node) ed w. node_id n = j \<longrightarrow>
                   executeNode F h n adj nodes ed w \<noteq> None"
        by (rule common_fuel)
      then obtain F where
        F: "\<forall>j\<in>set ids. \<forall>(n::node) ed w. node_id n = j \<longrightarrow>
              executeNode F h n adj nodes ed w \<noteq> None" ..
      have "executeNode (Suc F) h n adj nodes ed w \<noteq> None" if n: "node_id n = k"
        for n :: node and ed w
      proof (rule executeNode_returns)
        fix ids' j m ed' w'
        assume a: "adj (node_id n) = Some ids'" "j \<in> set ids'"
          "find (\<lambda>x. node_id x = j) nodes = Some m"
        from a(1) n Some have "ids' = ids" by simp
        moreover from a(3) have "node_id m = j"
          by (rule find_SomeD)
        ultimately have "j \<in> set ids" "node_id m = j"
          using a(2) by simp_all
        with F show "executeNode F h m adj nodes ed' w' \<noteq> None"
          by blast
      qed
      then show ?thesis by blast
    qed
  qed
qed

subsection \<open>Cycles\<close>

lemma find_Some_set:
  "find P xs = Some x \<Longrightarrow> x \<in> set xs"
  by (induction xs) (auto split: if_splits)

lemma forConnected_callee:
  assumes "forConnected f h ids adj nodes ed w = Some (None, ed', w')"
    "k \<in> set ids" "find (\<lambda>x. node_id x = k) nodes = Some m"
  shows "\<exists>ed1 w1 ed2 w2. executeNode f h m adj nodes ed1 w1 = Some (None, ed2, w2)"
  using assms(1,2)
proof (induction ids arbitrary: ed w)
  case Nil
  then show ?case by simp
next
  case (Cons j ids)
  show ?case
  proof (cases "find (\<lambda>x. node_id x = j) nodes")
    case None
    with assms(3) have "k \<noteq> j" by auto
    with Cons.prems(2) have k: "k \<in> set ids" by simp
    from Cons.prems(1) None have "forConnected f h ids adj nodes ed w = Some (None, ed', w')"
      by simp
    then show ?thesis using k by (rule Cons.IH)
  next
    case (Some m')
    note fj = Some
    show ?thesis
    proof (cases "executeNode f h m' adj nodes ed w")
      case None
      with fj Cons.prems(1) show ?thesis by simp
    next
      case (Some res)
      obtain e ed1 w1 where res: "res = (e, ed1, w1)" by (cases res)
      show ?thesis
      proof (cases e)
        case None
        note e = None
        from Cons.prems(1) have rest:
          "forConnected f h ids adj nodes ed1 w1 = Some (None, ed', w')"
          by (simp add: fj Some res e)
        show ?thesis
        proof (cases "k = j")
          case True
          with fj assms(3) have "m' = m" by simp
          with Some res e show ?thesis by blast
        next
          case False
          with Cons.prems(2) have "k \<in> set ids" by simp
          with rest show ?thesis by (rule Cons.IH)
        qed
      next
        case (Some err)
        from Cons.prems(1) show ?thesis
          by (simp add: fj \<open>executeNode f h m' adj nodes ed w = Some res\<close> res Some)
      qed
    qed
  qed
qed

lemma executeNode_callee:
  assumes "executeNode (Suc f) h n adj nodes ed w = Some (None, ed', w')"
    "(n, m) \<in> calls adj nodes"
  shows "\<exists>ed1 w1 ed2 w2. executeNode f h m adj nodes ed1 w1 = Some (None, ed2, w2)"
proof -
  from assms(2) obtain ids k where c: "adj (node_id n) = Some ids" "k \<in> set ids"
    "find (\<lambda>x. node_id x = k) nodes = Some m"
    by (auto simp: calls_def)
  obtain res w1 where d:
    "dispatch h n ed (console_log (ExecutingNode (label n) (node_type n)) w) = (res, w1)"
    by (cases "dispatch h n ed (console_log (ExecutingNode (label n) (node_type n)) w)")
  show ?thesis
  proof (cases res)
    case (Inl e)
    with d assms(1) show ?thesis by simp
  next
    case (Inr env)
    let ?ed = "AList.update (node_id n) env ed"
    from assms(1) d Inr c(1) have "forConnected f h ids adj nodes ?ed w1 = Some (None, ed', w')"
      by (cases "forConnected f h ids adj nodes ?ed w1")
         (auto simp del: forConnected.simps split: option.splits)
    then show ?thesis using c(2,3) by (rule forConnected_callee)
  qed
qed

lemma depth_bound:
  "(n, m) \<in> calls adj nodes ^^ k \<Longrightarrow>
   executeNode f h n adj nodes ed w = Some (None, ed', w') \<Longrightarrow> k < f"
proof (induction k arbitrary: n f ed w ed' w')
  case 0
  then show ?case by (cases f) simp_all
next
  case (Suc k)
  from Suc.prems(1) obtain y where y: "(n, y) \<in> calls adj nodes" "(y, m) \<in> calls adj nodes ^^ k"
    by (blast dest: relpow_Suc_D2)
  from Suc.prems(2) obtain f' where f: "f = Suc f'" by (cases f) simp_all
  from Suc.prems(2) have "executeNode (Suc f') h n adj nodes ed w = Some (None, ed', w')"
    by (simp only: f)
  from executeNode_callee [OF this y(1)] obtain ed1 w1 ed2 w2 where
    "executeNode f' h y adj nodes ed1 w1 = Some (None, ed2, w2)" by blast
  with y(2) have "k < f'" by (rule Suc.IH)
  with f show ?case by simp
qed

lemma cycle_paths:
  assumes "(n, m) \<in> R\<^sup>*" "(m, m) \<in> R\<^sup>+"
  shows "\<exists>j\<ge>k. (n, m) \<in> R ^^ j"
proof -
  from assms(1) obtain q where q: "(n, m) \<in> R ^^ q" by (auto simp: rtrancl_power)
  from assms(2) obtain p where p: "0 < p" "(m, m) \<in> R ^^ p" by (auto simp: trancl_power)
  have loop: "(m, m) \<in> R ^^ (p * i)" for i
  proof (induction i)
    case 0
    show ?case by simp
  next
    case (Suc i)
    from p(2) Suc have "(m, m) \<in> R ^^ p O R ^^ (p * i)" by (rule relcompI)
    then show ?case by (simp add: relpow_add)
  qed
  from q loop [of k] have "(n, m) \<in> R ^^ q O R ^^ (p * k)" by (rule relcompI)
  then have "(n, m) \<in> R ^^ (q + p * k)" by (simp add: relpow_add)
  moreover from p(1) have "k \<le> q + p * k" by (cases p) simp_all
  ultimately show ?thesis by blast
qed

lemma cycle_never_returns:
  assumes "(n, m) \<in> (calls adj nodes)\<^sup>*" "(m, m) \<in> (calls adj nodes)\<^sup>+"
  shows "executeNode f h n adj nodes ed w \<noteq> Some (None, ed', w')"
proof
  assume r: "executeNode f h n adj nodes ed w = Some (None, ed', w')"
  from cycle_paths [OF assms, of f] obtain j where j: "f \<le> j" "(n, m) \<in> calls adj nodes ^^ j"
    by blast
  from depth_bound [OF j(2) r] j(1) show False by simp
qed

lemma dispatch_never_throws:
  assumes "node_type n \<in> {''trigger'', ''data'', ''action''}"
  shows "\<exists>env w'. dispatch h n ed w = (Inr env, w')"
proof -
  from assms have "recognised n" "\<not> (summarizes n \<and> circular ed)"
    by (auto simp: recognised_def summarizes_def)
  from dispatch_returns [OF this, of h w] show ?thesis by blast
qed

lemma forConnected_no_throw:
  assumes "\<And>m ed w r ed' w'. m \<in> set nodes \<Longrightarrow>
             executeNode f h m adj nodes ed w = Some (r, ed', w') \<Longrightarrow> r = None"
  shows "forConnected f h ids adj nodes ed w = Some (r, ed', w') \<Longrightarrow> r = None"
proof (induction ids arbitrary: ed w)
  case Nil
  then show ?case by simp
next
  case (Cons j ids)
  show ?case
  proof (cases "find (\<lambda>x. node_id x = j) nodes")
    case None
    with Cons.prems have "forConnected f h ids adj nodes ed w = Some (r, ed', w')" by simp
    then show ?thesis by (rule Cons.IH)
  next
    case (Some m)
    note fj = Some
    then have m: "m \<in> set nodes" by (rule find_Some_set)
    show ?thesis
    proof (cases "executeNode f h m adj nodes ed w")
      case None
      with fj Cons.prems show ?thesis by simp
    next
      case (Some res)
      obtain e ed1 w1 where res: "res = (e, ed1, w1)" by (cases res)
      from Some res have "executeNode f h m adj nodes ed w = Some (e, ed1, w1)" by simp
      with m have e: "e = None" by (rule assms)
      from Cons.prems have "forConnected f h ids adj nodes ed1 w1 = Some (r, ed', w')"
        by (simp add: fj Some res e)
      then show ?thesis by (rule Cons.IH)
    qed
  qed
qed

lemma executeNode_no_throw:
  assumes all: "\<forall>m\<in>set nodes. node_type m \<in> {''trigger'', ''data'', ''action''}"
  shows "node_type n \<in> {''trigger'', ''data'', ''action''} \<Longrightarrow>
         executeNode f h n adj nodes ed w = Some (r, ed', w') \<Longrightarrow> r = None"
proof (induction f arbitrary: n ed w r ed' w')
  case 0
  then show ?case by simp
next
  case (Suc f)
  from dispatch_never_throws [OF Suc.prems(1)] obtain env w1 where d:
    "dispatch h n ed (console_log (ExecutingNode (label n) (node_type n)) w) = (Inr env, w1)"
    by blast
  show ?case
  proof (cases "adj (node_id n)")
    case None
    with d Suc.prems(2) show ?thesis by simp
  next
    case (Some ids)
    let ?ed = "AList.update (node_id n) env ed"
    have inner: "r' = None"
      if "forConnected f h ids adj nodes ?ed w1 = Some (r', ed'', w'')" for r' ed'' w''
      using that
    proof (rule forConnected_no_throw [rotated])
      fix m ed0 w0 r0 ed0' w0'
      assume "m \<in> set nodes" "executeNode f h m adj nodes ed0 w0 = Some (r0, ed0', w0')"
      with all show "r0 = None" by (intro Suc.IH [of m ed0 w0 r0 ed0' w0']) auto
    qed
    show ?thesis
    proof (cases "forConnected f h ids adj nodes ?ed w1")
      case None
      with d Some Suc.prems(2) show ?thesis by simp
    next
      case (Some res)
      obtain e ed1 w2 where res: "res = (e, ed1, w2)" by (cases res)
      with Some have "e = None" by (intro inner [of e ed1 w2]) simp
      with d \<open>adj (node_id n) = Some ids\<close> Some res Suc.prems(2) show ?thesis
        by (simp del: forConnected.simps)
    qed
  qed
qed

lemma edge_is_call:
  assumes "buildAdjacencyMap nodes (Some es) = Inr adj" "e \<in> set es"
    "node_id n = source_node_id e"
    "find (\<lambda>x. node_id x = target_node_id e) nodes = Some m"
  shows "(n, m) \<in> calls adj nodes"
proof -
  have adj: "adj = (\<lambda>k. if k \<in> node_id ` set nodes then Some (successors es k) else None)"
    by (rule buildAdjacencyMap_Inr [OF assms(1)])
  have "source_node_id e \<in> node_id ` set nodes"
  proof (rule ccontr)
    assume "source_node_id e \<notin> node_id ` set nodes"
    with assms(2) have n: "\<not> (\<forall>e\<in>set es. source_node_id e \<in> node_id ` set nodes)" by blast
    let ?m = "fold (\<lambda>n m. m(node_id n \<mapsto> [])) nodes Map.empty"
    have d: "dom ?m = node_id ` set nodes"
      by (auto simp: init_map dom_def)
    have "addEdges es ?m = Inl (TypeError PushOfUndefined)"
      by (rule addEdges_fail) (use n in \<open>simp add: d\<close>)
    with assms(1) show False by (simp add: buildAdjacencyMap_def)
  qed
  then have 1: "adj (node_id n) = Some (successors es (source_node_id e))"
    by (simp add: adj assms(3))
  from assms(2) have 2: "target_node_id e \<in> set (successors es (source_node_id e))"
    by (simp add: successors_def)
  from 1 2 assms(4) show ?thesis
    unfolding calls_def by blast
qed

subsection \<open>What a traversal leaves of the context\<close>

lemma reached_self: "n \<in> reached adj nodes n"
  by (simp add: reached_def)

lemma reached_call:
  "(n, m) \<in> calls adj nodes \<Longrightarrow> reached adj nodes m \<subseteq> reached adj nodes n"
  by (auto simp: reached_def intro: converse_rtrancl_into_rtrancl)










subsection \<open>Exceptions during a traversal\<close>

lemma dispatch_visits:
  "dispatch h n ed w = (res, w1) \<Longrightarrow> visits (console w1) = visits (console w)"
  by (auto simp: dispatch_def executeTrigger_def executeDataNode_def executeTransform_def
      executeAction_def sendEmail_def sendSMS_def postToSocial_def new_Date_def
      console_log_def visits_append Let_def
      split: if_splits sum.splits prod.splits)

lemma dispatch_category:
  "dispatch h n ed w = (Inr env, w1) \<Longrightarrow> \<not> unknown_category (node_type n)"
  by (auto simp: dispatch_def unknown_category_def split: if_splits)

lemma dispatch_unknown_category:
  "dispatch h n ed w = (Inl e, w1) \<Longrightarrow> unknown_category (node_type n) \<Longrightarrow>
   e = Error (''Unknown node type: '' @ node_type n)"
  by (simp add: dispatch_unknown unknown_category_def)

lemma halting_append:
  "list_all (\<lambda>v. \<not> unknown_category (snd v)) vs1 \<Longrightarrow> halting r vs2 \<Longrightarrow> halting r (vs1 @ vs2)"
  by (cases r) (simp_all add: butlast_append)

lemma fatal_visit:
  assumes "halting r vs" "v \<in> set vs" "unknown_category (snd v)"
  shows "r = Some (Error (''Unknown node type: '' @ snd v)) \<and> last vs = v"
proof (cases r)
  case None
  with assms show ?thesis by (auto simp: list_all_iff)
next
  case (Some e)
  with assms(1) have ne: "vs \<noteq> []"
    and known: "list_all (\<lambda>v. \<not> unknown_category (snd v)) (butlast vs)"
    and last: "unknown_category (snd (last vs)) \<longrightarrow>
                 e = Error (''Unknown node type: '' @ snd (last vs))"
    by simp_all
  from ne have "vs = butlast vs @ [last vs]" by simp
  then have "set vs = set (butlast vs) \<union> {last vs}"
    by (metis Un_insert_right append_Nil2 list.simps(15) set_append sup_bot.right_neutral)
  with assms(2) have "v \<in> set (butlast vs) \<or> v = last vs" by auto
  moreover from known assms(3) have "v \<notin> set (butlast vs)" by (auto simp: list_all_iff)
  ultimately have v: "last vs = v" by simp
  with last assms(3) Some show ?thesis by simp
qed

lemma forConnected_halting:
  assumes step: "\<And>m ed w r ed' w'. executeNode f h m adj nodes ed w = Some (r, ed', w') \<Longrightarrow>
                   \<exists>vs. visits (console w') = visits (console w) @ vs \<and> halting r vs"
  shows "forConnected f h ids adj nodes ed w = Some (r, ed', w') \<Longrightarrow>
         \<exists>vs. visits (console w') = visits (console w) @ vs \<and> halting r vs"
proof (induction ids arbitrary: ed w)
  case Nil
  then show ?case by simp
next
  case (Cons j ids)
  show ?case
  proof (cases "find (\<lambda>x. node_id x = j) nodes")
    case None
    with Cons.prems have "forConnected f h ids adj nodes ed w = Some (r, ed', w')" by simp
    then show ?thesis by (rule Cons.IH)
  next
    case (Some m)
    note fj = Some
    show ?thesis
    proof (cases "executeNode f h m adj nodes ed w")
      case None
      with fj Cons.prems show ?thesis by simp
    next
      case (Some res)
      obtain e ed1 w1 where res: "res = (e, ed1, w1)" by (cases res)
      from Some res have ex: "executeNode f h m adj nodes ed w = Some (e, ed1, w1)" by simp
      from step [OF ex] obtain vs1 where
        vs1: "visits (console w1) = visits (console w) @ vs1" "halting e vs1" by blast
      show ?thesis
      proof (cases e)
        case None
        from Cons.prems have "forConnected f h ids adj nodes ed1 w1 = Some (r, ed', w')"
          by (simp add: fj ex None)
        then have "\<exists>vs. visits (console w') = visits (console w1) @ vs \<and> halting r vs"
          by (rule Cons.IH)
        then obtain vs2 where
          vs2: "visits (console w') = visits (console w1) @ vs2" "halting r vs2" by blast
        from vs1(2) None have "list_all (\<lambda>v. \<not> unknown_category (snd v)) vs1" by simp
        then have "halting r (vs1 @ vs2)" using vs2(2) by (rule halting_append)
        moreover from vs1(1) vs2(1) have "visits (console w') = visits (console w) @ vs1 @ vs2"
          by simp
        ultimately show ?thesis by blast
      next
        case (Some err)
        from Cons.prems have "r = e" "w' = w1"
          by (simp_all add: fj ex Some)
        with vs1 show ?thesis by blast
      qed
    qed
  qed
qed

lemma executeNode_halting:
  "executeNode f h n adj nodes ed w = Some (r, ed', w') \<Longrightarrow>
   \<exists>vs. visits (console w') = visits (console w) @ vs \<and> halting r vs"
proof (induction f arbitrary: n ed w r ed' w')
  case 0
  then show ?case by simp
next
  case (Suc f)
  let ?v = "(label n, node_type n)"
  let ?w0 = "console_log (ExecutingNode (label n) (node_type n)) w"
  have v0: "visits (console ?w0) = visits (console w) @ [?v]"
    by (simp add: console_log_def visits_append)
  obtain res w1 where d: "dispatch h n ed ?w0 = (res, w1)"
    by (cases "dispatch h n ed ?w0")
  from dispatch_visits [OF d] v0 have v1: "visits (console w1) = visits (console w) @ [?v]"
    by simp
  show ?case
  proof (cases res)
    case (Inl e)
    with d Suc.prems have r: "r = Some e"
      and w': "w' = console_error (ErrorExecutingNode (node_id n) e) w1"
      by simp_all
    have "visits (console w') = visits (console w) @ [?v]"
      by (simp add: w' console_error_def visits_append v1)
    moreover have "halting r [?v]"
      using dispatch_unknown_category [of h n ed ?w0 e w1] d Inl by (simp add: r)
    ultimately show ?thesis by blast
  next
    case (Inr env)
    with d have known: "\<not> unknown_category (node_type n)"
      by (auto dest: dispatch_category)
    let ?ed = "AList.update (node_id n) env ed"
    show ?thesis
    proof (cases "adj (node_id n)")
      case None
      with d Inr Suc.prems have "r = None" "w' = w1" by simp_all
      with v1 known have "visits (console w') = visits (console w) @ [?v] \<and> halting r [?v]"
        by simp
      then show ?thesis by blast
    next
      case (Some ids)
      show ?thesis
      proof (cases "forConnected f h ids adj nodes ?ed w1")
        case None
        with d Inr Some Suc.prems show ?thesis by simp
      next
        case (Some res2)
        obtain r1 ed2 w2 where res2: "res2 = (r1, ed2, w2)" by (cases res2)
        from Some res2 have l: "forConnected f h ids adj nodes ?ed w1 = Some (r1, ed2, w2)"
          by simp
        have "\<exists>vs. visits (console w2) = visits (console w1) @ vs \<and> halting r1 vs"
          by (rule forConnected_halting [OF Suc.IH l])
        then obtain vs2 where
          vs2: "visits (console w2) = visits (console w1) @ vs2" "halting r1 vs2" by blast
        from Suc.prems have r: "r = r1" and w': "visits (console w') = visits (console w2)"
          by (auto simp: d Inr \<open>adj (node_id n) = Some ids\<close> l console_error_def visits_append
                simp del: forConnected.simps split: option.splits)
        from known have "list_all (\<lambda>v. \<not> unknown_category (snd v)) [?v]" by simp
        then have "halting r1 ([?v] @ vs2)" using vs2(2) by (rule halting_append)
        moreover have "visits (console w') = visits (console w) @ [?v] @ vs2"
          by (simp add: w' vs2(1) v1)
        ultimately show ?thesis using r by blast
      qed
    qed
  qed
qed

lemma forConnected_append:
  "forConnected f h (xs @ ys) adj nodes ed w =
     (case forConnected f h xs adj nodes ed w of
        None \<Rightarrow> None
      | Some (None, ed1, w1) \<Rightarrow> forConnected f h ys adj nodes ed1 w1
      | Some (Some e, ed1, w1) \<Rightarrow> Some (Some e, ed1, w1))"
proof (induction xs arbitrary: ed w)
  case Nil
  show ?case by simp
next
  case (Cons j xs)
  show ?case
    by (simp add: Cons.IH del: executeNode.simps split: option.splits prod.splits)
qed

lemma runChecked_cases:
  assumes "runChecked fuel h i w0 = Some (res, w1)"
  shows "(w1 = console_log (Starting i) w0 \<and> (\<exists>e. res = Inl e))
       \<or> (\<exists>t adj ns r ed. executeNode fuel h t adj ns [] (console_log (Starting i) w0) = Some (r, ed, w1)
             \<and> res = (case r of None \<Rightarrow> Inr ed | Some e \<Rightarrow> Inl e))"
proof (cases "select_workflow h i")
  case (Pair wo we)
  show ?thesis
  proof (cases "\<exists>wfl ns t adj. wo = Some wfl \<and> we = None \<and> enabled wfl
                 \<and> select_nodes h i = Some ns \<and> ns \<noteq> []
                 \<and> find (\<lambda>n. node_type n = ''trigger'') ns = Some t
                 \<and> buildAdjacencyMap ns (select_edges h i) = Inr adj")
    case True
    then obtain wfl ns t adj where c: "wo = Some wfl" "we = None" "enabled wfl"
      "select_nodes h i = Some ns" "ns \<noteq> []"
      "find (\<lambda>n. node_type n = ''trigger'') ns = Some t"
      "buildAdjacencyMap ns (select_edges h i) = Inr adj" by blast
    from assms have
      "(case executeNode fuel h t adj ns [] (console_log (Starting i) w0) of
          None \<Rightarrow> None
        | Some (Some e, executionData, w2) \<Rightarrow> Some (Inl e, w2)
        | Some (None, executionData, w2) \<Rightarrow> Some (Inr executionData, w2)) = Some (res, w1)"
      by (simp add: runChecked_def Let_def Pair c del: executeNode.simps)
    then have "\<exists>r ed. executeNode fuel h t adj ns [] (console_log (Starting i) w0) = Some (r, ed, w1)
             \<and> res = (case r of None \<Rightarrow> Inr ed | Some e \<Rightarrow> Inl e)"
      by (auto split: option.splits prod.splits)
    then show ?thesis by blast
  next
    case False
    with assms have "w1 = console_log (Starting i) w0 \<and> (\<exists>e. res = Inl e)"
      by (auto simp: runChecked_def Let_def Pair simp del: executeNode.simps
          split: option.splits if_splits sum.splits)
    then show ?thesis ..
  qed
qed

lemma runChecked_more_fuel:
  assumes "runChecked f h i w0 = Some x"
  shows "runChecked (Suc f) h i w0 = Some x"
proof (cases "select_workflow h i")
  case (Pair wo we)
  show ?thesis
  proof (cases "\<exists>wfl ns t adj. wo = Some wfl \<and> we = None \<and> enabled wfl
                 \<and> select_nodes h i = Some ns \<and> ns \<noteq> []
                 \<and> find (\<lambda>n. node_type n = ''trigger'') ns = Some t
                 \<and> buildAdjacencyMap ns (select_edges h i) = Inr adj")
    case True
    then obtain wfl ns t adj where c: "wo = Some wfl" "we = None" "enabled wfl"
      "select_nodes h i = Some ns" "ns \<noteq> []"
      "find (\<lambda>n. node_type n = ''trigger'') ns = Some t"
      "buildAdjacencyMap ns (select_edges h i) = Inr adj" by blast
    let ?call = "\<lambda>f. executeNode f h t adj ns [] (console_log (Starting i) w0)"
    have unfold: "runChecked f' h i w0 =
        (case ?call f' of
          None \<Rightarrow> None
        | Some (Some e, executionData, w2) \<Rightarrow> Some (Inl e, w2)
        | Some (None, executionData, w2) \<Rightarrow> Some (Inr executionData, w2))" for f'
      by (simp add: runChecked_def Let_def Pair c del: executeNode.simps)
    from assms obtain y where y: "?call f = Some y"
      by (cases "?call f") (simp_all add: unfold del: executeNode.simps)
    then have "?call (Suc f) = Some y" by (rule executeNode_more_fuel)
    with y assms show ?thesis by (simp add: unfold del: executeNode.simps)
  next
    case False
    with assms show ?thesis
      by (auto simp: runChecked_def Let_def Pair simp del: executeNode.simps
          split: option.splits if_splits sum.splits)
  qed
qed

lemma executeWorkflow_more_fuel:
  assumes "executeWorkflow f h i w = Some x" "f \<le> f'"
  shows "executeWorkflow f' h i w = Some x"
proof -
  have step: "executeWorkflow (Suc g) h i w = Some x" if "executeWorkflow g h i w = Some x" for g
  proof -
    from that obtain y where y: "runChecked g h i (w\<lparr>clock := Suc (clock w)\<rparr>) = Some y"
      by (cases "runChecked g h i (w\<lparr>clock := Suc (clock w)\<rparr>)")
         (simp_all add: executeWorkflow_def new_Date_def Let_def)
    then have "runChecked (Suc g) h i (w\<lparr>clock := Suc (clock w)\<rparr>) = Some y"
      by (rule runChecked_more_fuel)
    with y that show ?thesis by (simp add: executeWorkflow_def new_Date_def Let_def)
  qed
  have "executeWorkflow (f + k) h i w = Some x" for k
    by (induction k) (simp_all add: assms(1) step)
  from this [of "f' - f"] assms(2) show ?thesis by simp
qed

lemma executeNode_unknown:
  assumes "executeNode f h n adj nodes ed w = Some (r, ed', w')"
    "visits (console w') = visits (console w) @ vs"
    "(l, ty) \<in> set vs" "ty \<notin> {''trigger'', ''data'', ''transform'', ''action''}"
  shows "r = Some (Error (''Unknown node type: '' @ ty)) \<and> last vs = (l, ty)"
proof -
  from executeNode_halting [OF assms(1)] obtain vs' where
    vs': "visits (console w') = visits (console w) @ vs'" "halting r vs'" by blast
  from vs'(1) assms(2) have "vs' = vs" by simp
  with vs'(2) have "halting r vs" by simp
  from fatal_visit [OF this assms(3)] assms(4) show ?thesis
    by (simp add: unknown_category_def)
qed

lemma executeWorkflow_unknown:
  assumes run: "executeWorkflow fuel h i w = Some (out, w')"
    and vis: "visits (console w') = visits (console w) @ vs"
    and v: "(l, ty) \<in> set vs" "ty \<notin> {''trigger'', ''data'', ''transform'', ''action''}"
  shows "out = Failure (uuidv4 h) (Error (''Unknown node type: '' @ ty)) \<and> last vs = (l, ty)
       \<and> inserted w' \<noteq> [] \<and> status (last (inserted w')) = ''failed''
       \<and> error_message (last (inserted w')) = Some (Error (''Unknown node type: '' @ ty))
       \<and> execution_data (last (inserted w')) = None"
proof -
  let ?w0 = "w\<lparr>clock := Suc (clock w)\<rparr>"
  let ?ws = "console_log (Starting i) ?w0"
  have start: "visits (console ?ws) = visits (console w)"
    by (simp add: console_log_def visits_append)
  from run obtain y where "runChecked fuel h i ?w0 = Some y"
    by (cases "runChecked fuel h i ?w0") (simp_all add: executeWorkflow_def new_Date_def Let_def)
  then obtain res w1 where rc: "runChecked fuel h i ?w0 = Some (res, w1)" by (cases y) simp
  have same: "visits (console w') = visits (console w1)"
  proof (cases res)
    case (Inl e)
    with rc have "executeWorkflow fuel h i w =
                    Some (reported_failure h i (Date (now h (clock w))) e w1)"
      by (simp add: executeWorkflow_caught)
    with run have "w' = snd (reported_failure h i (Date (now h (clock w))) e w1)" by simp
    then show ?thesis
      by (simp add: reported_failure_def logExecution_visits console_error_def visits_append)
  next
    case (Inr ed)
    with rc run have "w' = console_log (Completed i)
             (logExecution h i (uuidv4 h) ''completed'' None (Some ed)
                (Date (now h (clock w))) w1)"
      by (simp add: executeWorkflow_returned)
    then show ?thesis
      by (simp add: logExecution_visits console_log_def visits_append)
  qed
  from runChecked_cases [OF rc] show ?thesis
  proof
    assume "w1 = ?ws \<and> (\<exists>e. res = Inl e)"
    with same start vis have "vs = []" by simp
    with v(1) show ?thesis by simp
  next
    assume "\<exists>t adj ns r ed. executeNode fuel h t adj ns [] ?ws = Some (r, ed, w1)
             \<and> res = (case r of None \<Rightarrow> Inr ed | Some e \<Rightarrow> Inl e)"
    then obtain t adj ns r ed where ex: "executeNode fuel h t adj ns [] ?ws = Some (r, ed, w1)"
      and res: "res = (case r of None \<Rightarrow> Inr ed | Some e \<Rightarrow> Inl e)" by blast
    from same start vis have "visits (console w1) = visits (console ?ws) @ vs" by simp
    from executeNode_unknown [OF ex this v]
    have r: "r = Some (Error (''Unknown node type: '' @ ty))" and l: "last vs = (l, ty)"
      by simp_all
    let ?e = "Error (''Unknown node type: '' @ ty)"
    from rc res r have "executeWorkflow fuel h i w =
                    Some (reported_failure h i (Date (now h (clock w))) ?e w1)"
      by (simp add: executeWorkflow_caught)
    with run have "out = fst (reported_failure h i (Date (now h (clock w))) ?e w1)"
      "w' = snd (reported_failure h i (Date (now h (clock w))) ?e w1)" by simp_all
    with l show ?thesis
      by (simp add: reported_failure_def logExecution_inserted)
  qed
qed

text \<open>
  C6.  A node whose category is none of trigger, data, transform, action makes
  \<open>executeNode\<close> throw the error whose message is \<open>Unknown node type:\<close> followed by that
  category, before anything is stored.  An exception thrown by the execution of a
  connected node, the first of the list or a later one, ends the loop over the connected
  nodes, and the enclosing \<open>executeNode\<close> logs it and throws it again.  When the traversal
  from the trigger throws, the run returns a failure with that error, and the record sent
  to the store has status failed, the error, and no context: what the traversal had stored
  is dropped.

  Hence, wherever the node is in the graph: when a call of \<open>executeNode\<close> has returned and
  its console lines show the execution of a node of such a category, the call has thrown
  the error naming that category, and that node is the last one executed.  When a run has
  returned and its console lines show the execution of such a node, the run has returned
  the failure with the error naming the category, that node is the last one executed, the
  record sent to the store has status failed, that error and no context, and the run
  returns the same at every greater bound on the depth of the recursion.
\<close>

theorem unknown_category_fatal:
  "(node_type n \<notin> {''trigger'', ''data'', ''transform'', ''action''} \<longrightarrow>
      executeNode (Suc fuel) h n adj nodes ed w =
        Some (Some (Error (''Unknown node type: '' @ node_type n)), ed,
              w\<lparr>console := console w @
                 [ExecutingNode (label n) (node_type n),
                  ErrorExecutingNode (node_id n)
                    (Error (''Unknown node type: '' @ node_type n))]\<rparr>))
   \<and> (forConnected fuel h before adj nodes ed w = Some (None, ed1, w1)
        \<and> find (\<lambda>m. node_id m = k) nodes = Some n'
        \<and> executeNode fuel h n' adj nodes ed1 w1 = Some (Some e, ed', w') \<longrightarrow>
      forConnected fuel h (before @ k # rest) adj nodes ed w = Some (Some e, ed', w'))
   \<and> (dispatch h n ed (console_log (ExecutingNode (label n) (node_type n)) w) = (Inr r, w1)
        \<and> adj (node_id n) = Some ids
        \<and> forConnected fuel h ids adj nodes (AList.update (node_id n) r ed) w1 =
            Some (Some e, ed', w') \<longrightarrow>
      executeNode (Suc fuel) h n adj nodes ed w =
        Some (Some e, ed', console_error (ErrorExecutingNode (node_id n) e) w'))
   \<and> (select_workflow h i = (Some wfl, None) \<and> enabled wfl \<and> select_nodes h i = Some ns
        \<and> find (\<lambda>n. node_type n = ''trigger'') ns = Some t
        \<and> buildAdjacencyMap ns (select_edges h i) = Inr adj
        \<and> executeNode fuel h t adj ns [] (started i w0) = Some (Some e, ed', w') \<longrightarrow>
      executeWorkflow fuel h i w0 =
        Some (reported_failure h i (Date (now h (clock w0))) e w'))
   \<and> fst (reported_failure h i s e w') = Failure (uuidv4 h) e
   \<and> inserted (snd (reported_failure h i s e w')) =
        inserted w' @ [\<lparr>execution_id = uuidv4 h, of_workflow = i, status = ''failed'',
                        error_message = Some e, execution_data = None, started_at = s,
                        ended_at = Date (now h (clock w'))\<rparr>]
   \<and> (executeNode fuel h n adj nodes ed w = Some (thrown, ed', w')
        \<and> visits (console w') = visits (console w) @ vs
        \<and> (l, ty) \<in> set vs \<and> ty \<notin> {''trigger'', ''data'', ''transform'', ''action''} \<longrightarrow>
      thrown = Some (Error (''Unknown node type: '' @ ty)) \<and> last vs = (l, ty))
   \<and> (executeWorkflow fuel h i w0 = Some (out, w2)
        \<and> visits (console w2) = visits (console w0) @ vs
        \<and> (l, ty) \<in> set vs \<and> ty \<notin> {''trigger'', ''data'', ''transform'', ''action''} \<longrightarrow>
      out = Failure (uuidv4 h) (Error (''Unknown node type: '' @ ty))
      \<and> last vs = (l, ty)
      \<and> inserted w2 \<noteq> [] \<and> status (last (inserted w2)) = ''failed''
      \<and> error_message (last (inserted w2)) = Some (Error (''Unknown node type: '' @ ty))
      \<and> execution_data (last (inserted w2)) = None
      \<and> (\<forall>fuel'. fuel \<le> fuel' \<longrightarrow> executeWorkflow fuel' h i w0 = Some (out, w2)))"
proof (intro conjI impI allI)
  assume "node_type n \<notin> {''trigger'', ''data'', ''transform'', ''action''}"
  then show "executeNode (Suc fuel) h n adj nodes ed w =
        Some (Some (Error (''Unknown node type: '' @ node_type n)), ed,
              w\<lparr>console := console w @
                 [ExecutingNode (label n) (node_type n),
                  ErrorExecutingNode (node_id n)
                    (Error (''Unknown node type: '' @ node_type n))]\<rparr>)"
    by (simp add: dispatch_unknown console_log_def console_error_def)
next
  assume "forConnected fuel h before adj nodes ed w = Some (None, ed1, w1)
        \<and> find (\<lambda>m. node_id m = k) nodes = Some n'
        \<and> executeNode fuel h n' adj nodes ed1 w1 = Some (Some e, ed', w')"
  then show "forConnected fuel h (before @ k # rest) adj nodes ed w = Some (Some e, ed', w')"
    by (simp add: forConnected_append del: executeNode.simps)
next
  assume "dispatch h n ed (console_log (ExecutingNode (label n) (node_type n)) w) = (Inr r, w1)
        \<and> adj (node_id n) = Some ids
        \<and> forConnected fuel h ids adj nodes (AList.update (node_id n) r ed) w1 =
            Some (Some e, ed', w')"
  then show "executeNode (Suc fuel) h n adj nodes ed w =
        Some (Some e, ed', console_error (ErrorExecutingNode (node_id n) e) w')"
    by simp
next
  assume a: "select_workflow h i = (Some wfl, None) \<and> enabled wfl \<and> select_nodes h i = Some ns
        \<and> find (\<lambda>n. node_type n = ''trigger'') ns = Some t
        \<and> buildAdjacencyMap ns (select_edges h i) = Inr adj
        \<and> executeNode fuel h t adj ns [] (started i w0) = Some (Some e, ed', w')"
  then have "runChecked fuel h i (w0\<lparr>clock := Suc (clock w0)\<rparr>) = Some (Inl e, w')"
    by (intro runChecked_traversal_throws [where wfl = wfl and ns = ns and t = t and adj = adj
          and ed' = ed']) (simp_all add: started_eq)
  then show "executeWorkflow fuel h i w0 =
        Some (reported_failure h i (Date (now h (clock w0))) e w')"
    by (rule executeWorkflow_caught)
next
  show "fst (reported_failure h i s e w') = Failure (uuidv4 h) e"
    by (simp add: reported_failure_def)
next
  show "inserted (snd (reported_failure h i s e w')) =
        inserted w' @ [\<lparr>execution_id = uuidv4 h, of_workflow = i, status = ''failed'',
                        error_message = Some e, execution_data = None, started_at = s,
                        ended_at = Date (now h (clock w'))\<rparr>]"
    by (simp add: reported_failure_def logExecution_inserted console_error_def)
next
  assume a: "executeNode fuel h n adj nodes ed w = Some (thrown, ed', w')
        \<and> visits (console w') = visits (console w) @ vs
        \<and> (l, ty) \<in> set vs \<and> ty \<notin> {''trigger'', ''data'', ''transform'', ''action''}"
  then have 1: "executeNode fuel h n adj nodes ed w = Some (thrown, ed', w')"
    and 2: "visits (console w') = visits (console w) @ vs"
    and 3: "(l, ty) \<in> set vs" and 4: "ty \<notin> {''trigger'', ''data'', ''transform'', ''action''}"
    by simp_all
  from executeNode_unknown [OF 1 2 3 4]
  show "thrown = Some (Error (''Unknown node type: '' @ ty))" "last vs = (l, ty)"
    by simp_all
next
  assume a: "executeWorkflow fuel h i w0 = Some (out, w2)
        \<and> visits (console w2) = visits (console w0) @ vs
        \<and> (l, ty) \<in> set vs \<and> ty \<notin> {''trigger'', ''data'', ''transform'', ''action''}"
  then have 1: "executeWorkflow fuel h i w0 = Some (out, w2)"
    and 2: "visits (console w2) = visits (console w0) @ vs"
    and 3: "(l, ty) \<in> set vs" and 4: "ty \<notin> {''trigger'', ''data'', ''transform'', ''action''}"
    by simp_all
  from executeWorkflow_unknown [OF 1 2 3 4]
  show "out = Failure (uuidv4 h) (Error (''Unknown node type: '' @ ty))"
    "last vs = (l, ty)" "inserted w2 \<noteq> []" "status (last (inserted w2)) = ''failed''"
    "error_message (last (inserted w2)) = Some (Error (''Unknown node type: '' @ ty))"
    "execution_data (last (inserted w2)) = None"
    by simp_all
  fix fuel'
  assume "fuel \<le> fuel'"
  with 1 show "executeWorkflow fuel' h i w0 = Some (out, w2)"
    by (rule executeWorkflow_more_fuel)
qed

theorem unknown_category_fatal_witness:
  "executeNode 1 (sample_host [] []) webhook_node Map.empty []
       [(''t'', TriggerEnvelope (Date 1) [])] sample_world =
     Some (Some (Error ''Unknown node type: webhook''), [(''t'', TriggerEnvelope (Date 1) [])],
           \<lparr>clock = 0,
            console = [ExecutingNode ''Hook'' ''webhook'',
                       ErrorExecutingNode ''h'' (Error ''Unknown node type: webhook'')],
            inserted = []\<rparr>)
   \<and> executeWorkflow 3 (sample_host hooked_nodes hooked_edges) ''w'' sample_world =
       Some (Failure ''run-1'' (Error ''Unknown node type: webhook''), hooked_world)
   \<and> visits (console hooked_world) =
       [(''Start'', ''trigger''), (''A'', ''data''), (''C'', ''data''), (''Hook'', ''webhook'')]
   \<and> executeWorkflow 9 (sample_host hooked_nodes hooked_edges) ''w'' sample_world =
       Some (Failure ''run-1'' (Error ''Unknown node type: webhook''), hooked_world)"
proof -
  have u: "node_type webhook_node \<notin> {''trigger'', ''data'', ''transform'', ''action''}"
    by (simp add: webhook_node_def)
  have 1: "executeNode 1 (sample_host [] []) webhook_node Map.empty []
       [(''t'', TriggerEnvelope (Date 1) [])] sample_world =
     Some (Some (Error ''Unknown node type: webhook''), [(''t'', TriggerEnvelope (Date 1) [])],
           \<lparr>clock = 0,
            console = [ExecutingNode ''Hook'' ''webhook'',
                       ErrorExecutingNode ''h'' (Error ''Unknown node type: webhook'')],
            inserted = []\<rparr>)"
    using unknown_category_fatal [where n = webhook_node and fuel = 0 and h = "sample_host [] []"
        and adj = Map.empty and nodes = "[]" and ed = "[(''t'', TriggerEnvelope (Date 1) [])]"
        and w = sample_world, THEN conjunct1, THEN mp, OF u]
    by (simp add: webhook_node_def sample_world_def)
  let ?h = "sample_host hooked_nodes hooked_edges"
  let ?vs = "[(''Start'', ''trigger''), (''A'', ''data''), (''C'', ''data''),
              (''Hook'', ''webhook'')]"
  have 2: "executeWorkflow 3 ?h ''w'' sample_world =
       Some (Failure ''run-1'' (Error ''Unknown node type: webhook''), hooked_world)"
    by (simp add: run_defs sample_defs webhook_node_def data_node_def hooked_nodes_def
        hooked_edges_def hooked_world_def)
  have 3: "visits (console hooked_world) = ?vs"
    by (simp add: hooked_world_def)
  have "executeWorkflow 3 ?h ''w'' sample_world =
          Some (Failure ''run-1'' (Error ''Unknown node type: webhook''), hooked_world)
        \<and> visits (console hooked_world) = visits (console sample_world) @ ?vs
        \<and> (''Hook'', ''webhook'') \<in> set ?vs
        \<and> ''webhook'' \<notin> {''trigger'', ''data'', ''transform'', ''action''}"
    using 2 3 by (simp add: sample_world_def)
  from unknown_category_fatal [where fuel = 3 and h = ?h and i = "''w''" and ?w0.0 = sample_world
      and out = "Failure ''run-1'' (Error ''Unknown node type: webhook'')" and ?w2.0 = hooked_world
      and vs = ?vs and l = "''Hook''" and ty = "''webhook''",
      THEN conjunct2, THEN conjunct2, THEN conjunct2, THEN conjunct2, THEN conjunct2,
      THEN conjunct2, THEN conjunct2, THEN mp, OF this]
  have "\<forall>fuel'. 3 \<le> fuel' \<longrightarrow>
          executeWorkflow fuel' ?h ''w'' sample_world =
            Some (Failure ''run-1'' (Error ''Unknown node type: webhook''), hooked_world)"
    by (elim conjE)
  then have 4: "executeWorkflow 9 ?h ''w'' sample_world =
            Some (Failure ''run-1'' (Error ''Unknown node type: webhook''), hooked_world)"
    by simp
  from 1 2 3 4 show ?thesis by (intro conjI)
qed

subsection \<open>Cycles that the traversal reaches\<close>

lemma reached_subset: "reached adj nodes n \<subseteq> insert n (set nodes)"
proof
  fix m
  assume "m \<in> reached adj nodes n"
  then have "(n, m) \<in> (calls adj nodes)\<^sup>*" by (simp add: reached_def)
  then show "m \<in> insert n (set nodes)"
  proof (cases rule: rtrancl.cases)
    case rtrancl_refl
    then show ?thesis by simp
  next
    case (rtrancl_into_rtrancl y)
    then obtain k where "find (\<lambda>x. node_id x = k) nodes = Some m"
      by (auto simp: calls_def)
    then have "m \<in> set nodes" by (rule find_Some_set)
    then show ?thesis by simp
  qed
qed

lemma forConnected_thrower:
  assumes step: "\<And>m ed w e ed' w'. executeNode f h m adj nodes ed w = Some (Some e, ed', w') \<Longrightarrow>
                   \<exists>x\<in>reached adj nodes m. \<exists>ed0 w0 w1. dispatch h x ed0 w0 = (Inl e, w1)"
  shows "forConnected f h ids adj nodes ed w = Some (Some e, ed', w') \<Longrightarrow>
         \<exists>j\<in>set ids. \<exists>m. find (\<lambda>x. node_id x = j) nodes = Some m
            \<and> (\<exists>x\<in>reached adj nodes m. \<exists>ed0 w0 w1. dispatch h x ed0 w0 = (Inl e, w1))"
proof (induction ids arbitrary: ed w)
  case Nil
  then show ?case by simp
next
  case (Cons j ids)
  show ?case
  proof (cases "find (\<lambda>x. node_id x = j) nodes")
    case None
    with Cons.prems have "forConnected f h ids adj nodes ed w = Some (Some e, ed', w')" by simp
    from Cons.IH [OF this] show ?thesis by auto
  next
    case (Some m)
    note fj = Some
    show ?thesis
    proof (cases "executeNode f h m adj nodes ed w")
      case None
      with fj Cons.prems show ?thesis by simp
    next
      case (Some res)
      obtain r ed1 w1 where res: "res = (r, ed1, w1)" by (cases res)
      from Some res have ex: "executeNode f h m adj nodes ed w = Some (r, ed1, w1)" by simp
      show ?thesis
      proof (cases r)
        case None
        from Cons.prems have "forConnected f h ids adj nodes ed1 w1 = Some (Some e, ed', w')"
          by (simp add: fj ex None)
        from Cons.IH [OF this] show ?thesis by auto
      next
        case (Some err)
        from Cons.prems have "err = e" by (simp add: fj ex Some)
        with ex Some have "executeNode f h m adj nodes ed w = Some (Some e, ed1, w1)" by simp
        from step [OF this] fj show ?thesis by auto
      qed
    qed
  qed
qed

lemma executeNode_thrower:
  "executeNode f h n adj nodes ed w = Some (Some e, ed', w') \<Longrightarrow>
   \<exists>x\<in>reached adj nodes n. \<exists>ed0 w0 w1. dispatch h x ed0 w0 = (Inl e, w1)"
proof (induction f arbitrary: n ed w e ed' w')
  case 0
  then show ?case by simp
next
  case (Suc f)
  obtain res w1 where d:
    "dispatch h n ed (console_log (ExecutingNode (label n) (node_type n)) w) = (res, w1)"
    by (cases "dispatch h n ed (console_log (ExecutingNode (label n) (node_type n)) w)")
  show ?case
  proof (cases res)
    case (Inl e0)
    with d Suc.prems have "e0 = e" by simp
    with d Inl reached_self [of n adj nodes] show ?thesis by blast
  next
    case (Inr env)
    let ?ed = "AList.update (node_id n) env ed"
    show ?thesis
    proof (cases "adj (node_id n)")
      case None
      with d Inr Suc.prems show ?thesis by simp
    next
      case (Some ids)
      from d Inr Some Suc.prems obtain ed2 w2 where
        l: "forConnected f h ids adj nodes ?ed w1 = Some (Some e, ed2, w2)"
        by (cases "forConnected f h ids adj nodes ?ed w1")
           (auto simp del: forConnected.simps split: option.splits)
      have "\<exists>j\<in>set ids. \<exists>m. find (\<lambda>x. node_id x = j) nodes = Some m
            \<and> (\<exists>x\<in>reached adj nodes m. \<exists>ed0 w0 w1. dispatch h x ed0 w0 = (Inl e, w1))"
        by (rule forConnected_thrower [OF Suc.IH l])
      then obtain j m x ed0 w0 w3 where j: "j \<in> set ids"
        "find (\<lambda>x. node_id x = j) nodes = Some m" "x \<in> reached adj nodes m"
        "dispatch h x ed0 w0 = (Inl e, w3)" by blast
      from Some j(1,2) have "(n, m) \<in> calls adj nodes"
        unfolding calls_def by blast
      then have "reached adj nodes m \<subseteq> reached adj nodes n" by (rule reached_call)
      with j(3) have "x \<in> reached adj nodes n" by blast
      with j(4) show ?thesis by blast
    qed
  qed
qed

lemma executeNode_unbounded:
  assumes "(n, m) \<in> (calls adj nodes)\<^sup>*" "(m, m) \<in> (calls adj nodes)\<^sup>+"
    and quiet: "\<forall>x\<in>reached adj nodes n. \<forall>ed0 w0. \<exists>env w1. dispatch h x ed0 w0 = (Inr env, w1)"
  shows "executeNode f h n adj nodes ed w = None"
proof (cases "executeNode f h n adj nodes ed w")
  case None
  then show ?thesis .
next
  case (Some res)
  obtain r ed1 w1 where res: "res = (r, ed1, w1)" by (cases res)
  show ?thesis
  proof (cases r)
    case None
    with Some res have "executeNode f h n adj nodes ed w = Some (None, ed1, w1)" by simp
    with cycle_never_returns [OF assms(1,2)] show ?thesis by blast
  next
    case (Some e)
    with \<open>executeNode f h n adj nodes ed w = Some res\<close> res
    have "executeNode f h n adj nodes ed w = Some (Some e, ed1, w1)" by simp
    from executeNode_thrower [OF this] obtain x ed0 w0 w2 where
      x: "x \<in> reached adj nodes n" "dispatch h x ed0 w0 = (Inl e, w2)" by blast
    from quiet x(1) obtain env w3 where "dispatch h x ed0 w0 = (Inr env, w3)" by blast
    with x(2) show ?thesis by simp
  qed
qed

lemma found_common_fuel:
  assumes "\<And>k m. k \<in> set ids \<Longrightarrow> find (\<lambda>x. node_id x = k) nodes = Some m \<Longrightarrow>
     \<exists>F. \<forall>ed w. executeNode F h m adj nodes ed w \<noteq> None"
  shows "\<exists>F. \<forall>k\<in>set ids. \<forall>m. find (\<lambda>x. node_id x = k) nodes = Some m \<longrightarrow>
              (\<forall>ed w. executeNode F h m adj nodes ed w \<noteq> None)"
  using assms
proof (induction ids)
  case Nil
  show ?case by simp
next
  case (Cons k ids)
  have "\<exists>F. \<forall>k\<in>set ids. \<forall>m. find (\<lambda>x. node_id x = k) nodes = Some m \<longrightarrow>
              (\<forall>ed w. executeNode F h m adj nodes ed w \<noteq> None)"
    by (rule Cons.IH) (rule Cons.prems, simp_all)
  then obtain F2 where
    F2: "\<And>j m ed w. j \<in> set ids \<Longrightarrow> find (\<lambda>x. node_id x = j) nodes = Some m \<Longrightarrow>
           executeNode F2 h m adj nodes ed w \<noteq> None"
    by blast
  have "\<exists>F1. \<forall>m. find (\<lambda>x. node_id x = k) nodes = Some m \<longrightarrow>
              (\<forall>ed w. executeNode F1 h m adj nodes ed w \<noteq> None)"
  proof (cases "find (\<lambda>x. node_id x = k) nodes")
    case None
    then show ?thesis by simp
  next
    case (Some m)
    then have "\<exists>F. \<forall>ed w. executeNode F h m adj nodes ed w \<noteq> None"
      by (intro Cons.prems [of k]) simp_all
    with Some show ?thesis by simp
  qed
  then obtain F1 where
    F1: "\<And>m ed w. find (\<lambda>x. node_id x = k) nodes = Some m \<Longrightarrow>
           executeNode F1 h m adj nodes ed w \<noteq> None"
    by blast
  have "\<forall>j\<in>set (k # ids). \<forall>m. find (\<lambda>x. node_id x = j) nodes = Some m \<longrightarrow>
          (\<forall>ed w. executeNode (max F1 F2) h m adj nodes ed w \<noteq> None)"
  proof (intro ballI allI impI)
    fix j m ed w
    assume j: "j \<in> set (k # ids)" and m: "find (\<lambda>x. node_id x = j) nodes = Some m"
    show "executeNode (max F1 F2) h m adj nodes ed w \<noteq> None"
    proof (cases "j = k")
      case True
      with m have "executeNode F1 h m adj nodes ed w \<noteq> None" by (intro F1) simp
      then show ?thesis by (rule executeNode_fuel_mono) simp
    next
      case False
      with j have "j \<in> set ids" by simp
      then have "executeNode F2 h m adj nodes ed w \<noteq> None" using m by (rule F2)
      then show ?thesis by (rule executeNode_fuel_mono) simp
    qed
  qed
  then show ?case ..
qed

lemma reached_terminates:
  assumes free: "\<forall>m\<in>reached adj nodes n. (m, m) \<notin> (calls adj nodes)\<^sup>+"
  shows "\<exists>F. \<forall>ed w. executeNode F h n adj nodes ed w \<noteq> None"
proof -
  define S where "S = reached adj nodes n"
  define R where "R = {(a, b). (a, b) \<in> calls adj nodes \<and> a \<in> S}"
  have R_calls: "R \<subseteq> calls adj nodes" by (auto simp: R_def)
  have closed: "b \<in> S" if "(a, b) \<in> R" for a b
  proof -
    from that have "(a, b) \<in> calls adj nodes" "a \<in> S" by (simp_all add: R_def)
    then show ?thesis
      unfolding S_def reached_def by (auto intro: rtrancl_into_rtrancl)
  qed
  have "R \<subseteq> insert n (set nodes) \<times> insert n (set nodes)"
  proof
    fix p
    assume p: "p \<in> R"
    obtain a b where ab: "p = (a, b)" by (cases p)
    with p have "a \<in> S" by (simp add: R_def)
    moreover from p ab have "b \<in> S" by (auto intro: closed)
    ultimately show "p \<in> insert n (set nodes) \<times> insert n (set nodes)"
      using reached_subset [of adj nodes n] ab by (auto simp: S_def)
  qed
  then have fin: "finite R" by (rule finite_subset) simp
  have "acyclic R"
    unfolding acyclic_def
  proof (intro allI notI)
    fix a
    assume a: "(a, a) \<in> R\<^sup>+"
    then obtain b where "(a, b) \<in> R" by (auto dest: tranclD)
    then have "a \<in> S" by (simp add: R_def)
    moreover from a R_calls have "(a, a) \<in> (calls adj nodes)\<^sup>+"
      by (rule trancl_mono)
    ultimately show False using free by (simp add: S_def)
  qed
  with fin have "wf (R\<inverse>)" by (rule finite_acyclic_wf_converse)
  then have "m \<in> S \<longrightarrow> (\<exists>F. \<forall>ed w. executeNode F h m adj nodes ed w \<noteq> None)" for m
  proof (induction m rule: wf_induct_rule)
    case (less m)
    show ?case
    proof
      assume mS: "m \<in> S"
      show "\<exists>F. \<forall>ed w. executeNode F h m adj nodes ed w \<noteq> None"
      proof (cases "adj (node_id m)")
        case None
        have "executeNode (Suc 0) h m adj nodes ed w \<noteq> None" for ed w
          by (rule executeNode_returns) (simp add: None)
        then show ?thesis by blast
      next
        case (Some ids)
        have "\<exists>F. \<forall>ed w. executeNode F h y adj nodes ed w \<noteq> None"
          if "j \<in> set ids" "find (\<lambda>x. node_id x = j) nodes = Some y" for j y
        proof -
          from Some that have c: "(m, y) \<in> calls adj nodes"
            unfolding calls_def by blast
          with mS have r: "(m, y) \<in> R" by (simp add: R_def)
          then have "(y, m) \<in> R\<inverse>" by simp
          from less.IH [OF this] closed [OF r] show ?thesis by simp
        qed
        then have "\<exists>F. \<forall>k\<in>set ids. \<forall>y. find (\<lambda>x. node_id x = k) nodes = Some y \<longrightarrow>
              (\<forall>ed w. executeNode F h y adj nodes ed w \<noteq> None)"
          by (rule found_common_fuel)
        then obtain F where
          F: "\<forall>k\<in>set ids. \<forall>y. find (\<lambda>x. node_id x = k) nodes = Some y \<longrightarrow>
              (\<forall>ed w. executeNode F h y adj nodes ed w \<noteq> None)" ..
        have "executeNode (Suc F) h m adj nodes ed w \<noteq> None" for ed w
        proof (rule executeNode_returns)
          fix ids' j y ed' w'
          assume a: "adj (node_id m) = Some ids'" "j \<in> set ids'"
            "find (\<lambda>x. node_id x = j) nodes = Some y"
          from a(1) Some have "ids' = ids" by simp
          with a(2) have "j \<in> set ids" by simp
          with F a(3) show "executeNode F h y adj nodes ed' w' \<noteq> None" by blast
        qed
        then show ?thesis by blast
      qed
    qed
  qed
  from this [of n] show ?thesis by (simp add: S_def reached_self)
qed

text \<open>
  A cyclic edge set does not always make the recursion unbounded.  The edges of the first
  workflow form a cycle that no edge from the trigger leads to: the run visits the trigger
  alone and returns a success.  The edges of the second form a cycle that the traversal
  enters: the handler-less node on it throws, and the run returns a failure.
\<close>

theorem cyclic_run_returns:
  "\<not> acyclic (edge_rel island_edges)
   \<and> map_option fst (executeWorkflow 1 (sample_host loop_nodes island_edges) ''w'' sample_world)
       = Some (Success ''run-1'' [(''t'', TriggerEnvelope (Date 1) [])])
   \<and> \<not> acyclic (edge_rel snag_edges)
   \<and> map_option fst (executeWorkflow 3 (sample_host snag_nodes snag_edges) ''w'' sample_world)
       = Some (Failure ''run-1'' (Error ''Unknown node type: webhook''))"
proof -
  have "(''a'', ''b'') \<in> edge_rel island_edges" "(''b'', ''a'') \<in> edge_rel island_edges"
    by (simp_all add: edge_rel_def edge_pairs_def island_edges_def link_def)
  then have "(''a'', ''a'') \<in> (edge_rel island_edges)\<^sup>+"
    by (rule trancl_into_trancl [OF r_into_trancl])
  then have 1: "\<not> acyclic (edge_rel island_edges)"
    unfolding acyclic_def by blast
  have 2: "map_option fst
             (executeWorkflow 1 (sample_host loop_nodes island_edges) ''w'' sample_world)
       = Some (Success ''run-1'' [(''t'', TriggerEnvelope (Date 1) [])])"
    by (simp add: run_defs sample_defs data_node_def loop_nodes_def island_edges_def)
  have "(''a'', ''h'') \<in> edge_rel snag_edges" "(''h'', ''a'') \<in> edge_rel snag_edges"
    by (simp_all add: edge_rel_def edge_pairs_def snag_edges_def link_def)
  then have "(''a'', ''a'') \<in> (edge_rel snag_edges)\<^sup>+"
    by (rule trancl_into_trancl [OF r_into_trancl])
  then have 3: "\<not> acyclic (edge_rel snag_edges)"
    unfolding acyclic_def by blast
  have 4: "map_option fst
             (executeWorkflow 3 (sample_host snag_nodes snag_edges) ''w'' sample_world)
       = Some (Failure ''run-1'' (Error ''Unknown node type: webhook''))"
    by (simp add: run_defs sample_defs data_node_def webhook_node_def snag_nodes_def
        snag_edges_def)
  from 1 2 3 4 show ?thesis by (intro conjI)
qed

text \<open>
  C8 (as amended).  \<open>executeNode\<close> keeps no record of the nodes it has entered and no count
  of its depth.  Here a call that has not come back within \<open>f\<close> nested calls has the value
  \<open>None\<close> at \<open>f\<close>.

  When the edge set is acyclic, the call on any node, from any context, comes back (with
  a result or with an exception) for every bound from some bound on: the traversal
  terminates.  So it does whenever no node that the call reaches is called again from
  itself: a cycle of edges that the traversal does not reach is never entered.

  When the calls that start from a node reach a node that is called again from itself, no
  bound lets the call return normally.  An exception that ends a call has been thrown by
  the handler of a node that the call reaches: nothing else in the engine stops the
  recursion.  So when the handlers of the reached nodes do not throw, the call is nested
  deeper than every bound: the recursion is unbounded.  What ends it on a machine, the
  exhaustion of the stack or of the memory, is outside this model; where it is raised as
  an exception, the \<open>catch\<close> blocks pass it on as any other.

  Every edge whose target \<open>nodes.find\<close> resolves is such a call, from any node that has
  the edge's source as its identifier, so a cycle of such edges is a cycle of calls.
\<close>

theorem no_cycle_detection:
  "(acyclic (edge_rel es) \<and> buildAdjacencyMap nodes (Some es) = Inr adj \<longrightarrow>
      (\<exists>F. \<forall>f\<ge>F. \<forall>ed w. executeNode f h n adj nodes ed w \<noteq> None))
   \<and> ((\<forall>x\<in>reached adj nodes n. (x, x) \<notin> (calls adj nodes)\<^sup>+) \<longrightarrow>
      (\<exists>F. \<forall>f\<ge>F. \<forall>ed w. executeNode f h n adj nodes ed w \<noteq> None))
   \<and> ((n, m) \<in> (calls adj nodes)\<^sup>* \<and> (m, m) \<in> (calls adj nodes)\<^sup>+ \<longrightarrow>
      executeNode f h n adj nodes ed w \<noteq> Some (None, ed', w'))
   \<and> (executeNode f h n adj nodes ed w = Some (Some err, ed', w') \<longrightarrow>
      (\<exists>x\<in>reached adj nodes n. \<exists>ed0 w0 w1. dispatch h x ed0 w0 = (Inl err, w1)))
   \<and> ((n, m) \<in> (calls adj nodes)\<^sup>* \<and> (m, m) \<in> (calls adj nodes)\<^sup>+
       \<and> (\<forall>x\<in>reached adj nodes n. \<forall>ed0 w0. \<exists>env w1. dispatch h x ed0 w0 = (Inr env, w1)) \<longrightarrow>
      executeNode f h n adj nodes ed w = None)
   \<and> (buildAdjacencyMap nodes (Some es) = Inr adj \<and> e \<in> set es
       \<and> node_id n = source_node_id e
       \<and> find (\<lambda>x. node_id x = target_node_id e) nodes = Some m \<longrightarrow>
      (n, m) \<in> calls adj nodes)"
proof (intro conjI impI)
  assume a: "acyclic (edge_rel es) \<and> buildAdjacencyMap nodes (Some es) = Inr adj"
  then have "\<exists>F. \<forall>(x::node) ed w. node_id x = node_id n \<longrightarrow>
                executeNode F h x adj nodes ed w \<noteq> None"
    by (intro acyclic_terminates [where es = es]) simp_all
  then obtain F where F: "\<forall>(x::node) ed w. node_id x = node_id n \<longrightarrow>
                executeNode F h x adj nodes ed w \<noteq> None" ..
  have "\<forall>f\<ge>F. \<forall>ed w. executeNode f h n adj nodes ed w \<noteq> None"
  proof (intro allI impI)
    fix f ed w
    assume le: "F \<le> f"
    from F have "executeNode F h n adj nodes ed w \<noteq> None" by simp
    then show "executeNode f h n adj nodes ed w \<noteq> None"
      using le by (rule executeNode_fuel_mono)
  qed
  then show "\<exists>F. \<forall>f\<ge>F. \<forall>ed w. executeNode f h n adj nodes ed w \<noteq> None" ..
next
  assume "\<forall>x\<in>reached adj nodes n. (x, x) \<notin> (calls adj nodes)\<^sup>+"
  then have "\<exists>F. \<forall>ed w. executeNode F h n adj nodes ed w \<noteq> None"
    by (rule reached_terminates)
  then obtain F where F: "\<forall>ed w. executeNode F h n adj nodes ed w \<noteq> None" ..
  have "\<forall>f\<ge>F. \<forall>ed w. executeNode f h n adj nodes ed w \<noteq> None"
  proof (intro allI impI)
    fix f ed w
    assume le: "F \<le> f"
    from F have "executeNode F h n adj nodes ed w \<noteq> None" by simp
    then show "executeNode f h n adj nodes ed w \<noteq> None"
      using le by (rule executeNode_fuel_mono)
  qed
  then show "\<exists>F. \<forall>f\<ge>F. \<forall>ed w. executeNode f h n adj nodes ed w \<noteq> None" ..
next
  assume "(n, m) \<in> (calls adj nodes)\<^sup>* \<and> (m, m) \<in> (calls adj nodes)\<^sup>+"
  then show "executeNode f h n adj nodes ed w \<noteq> Some (None, ed', w')"
    by (intro cycle_never_returns [where m = m]) simp_all
next
  assume "executeNode f h n adj nodes ed w = Some (Some err, ed', w')"
  then show "\<exists>x\<in>reached adj nodes n. \<exists>ed0 w0 w1. dispatch h x ed0 w0 = (Inl err, w1)"
    by (rule executeNode_thrower)
next
  assume a: "(n, m) \<in> (calls adj nodes)\<^sup>* \<and> (m, m) \<in> (calls adj nodes)\<^sup>+
       \<and> (\<forall>x\<in>reached adj nodes n. \<forall>ed0 w0. \<exists>env w1. dispatch h x ed0 w0 = (Inr env, w1))"
  then have 1: "(n, m) \<in> (calls adj nodes)\<^sup>*" and 2: "(m, m) \<in> (calls adj nodes)\<^sup>+"
    and 3: "\<forall>x\<in>reached adj nodes n. \<forall>ed0 w0. \<exists>env w1. dispatch h x ed0 w0 = (Inr env, w1)"
    by blast+
  show "executeNode f h n adj nodes ed w = None"
    by (rule executeNode_unbounded [OF 1 2 3])
next
  assume "buildAdjacencyMap nodes (Some es) = Inr adj \<and> e \<in> set es
       \<and> node_id n = source_node_id e
       \<and> find (\<lambda>x. node_id x = target_node_id e) nodes = Some m"
  then show "(n, m) \<in> calls adj nodes"
    by (intro edge_is_call [where es = es and e = e]) simp_all
qed

lemma line_map_built:
  "buildAdjacencyMap line_nodes (Some line_edges) = Inr line_map"
proof -
  have "\<forall>e\<in>set line_edges. source_node_id e \<in> node_id ` set line_nodes"
    by (simp add: line_nodes_def line_edges_def sample_defs)
  from buildAdjacencyMap_closed_form [OF this] show ?thesis
    by (simp add: line_map_def fun_eq_iff)
qed

lemma loop_map_built:
  "buildAdjacencyMap loop_nodes (Some loop_edges) = Inr loop_map"
proof -
  have "\<forall>e\<in>set loop_edges. source_node_id e \<in> node_id ` set loop_nodes"
    by (simp add: loop_nodes_def loop_edges_def data_node_def sample_defs)
  from buildAdjacencyMap_closed_form [OF this] show ?thesis
    by (simp add: loop_map_def fun_eq_iff)
qed

lemma island_map_built:
  "buildAdjacencyMap loop_nodes (Some island_edges) = Inr island_map"
proof -
  have "\<forall>e\<in>set island_edges. source_node_id e \<in> node_id ` set loop_nodes"
    by (simp add: loop_nodes_def island_edges_def data_node_def sample_defs)
  from buildAdjacencyMap_closed_form [OF this] show ?thesis
    by (simp add: island_map_def fun_eq_iff)
qed

lemma loop_calls:
  "(plain_trigger, data_node ''a'' ''A'') \<in> calls loop_map loop_nodes"
  "(data_node ''a'' ''A'', data_node ''b'' ''B'') \<in> calls loop_map loop_nodes"
  "(data_node ''b'' ''B'', data_node ''a'' ''A'') \<in> calls loop_map loop_nodes"
  by (simp_all add: calls_def loop_map_def loop_nodes_def loop_edges_def successors_def
      data_node_def sample_defs)

lemma island_no_call:
  "(plain_trigger, m) \<notin> calls island_map loop_nodes"
  by (simp add: calls_def island_map_def loop_nodes_def island_edges_def successors_def
      data_node_def sample_defs)

lemma island_reached:
  "reached island_map loop_nodes plain_trigger = {plain_trigger}"
proof -
  have "m = plain_trigger" if "(plain_trigger, m) \<in> (calls island_map loop_nodes)\<^sup>*" for m
    using that island_no_call by (auto elim: converse_rtranclE)
  then show ?thesis by (auto simp: reached_def)
qed

theorem no_cycle_detection_witness:
  "acyclic (edge_rel line_edges)
   \<and> buildAdjacencyMap line_nodes (Some line_edges) = Inr line_map
   \<and> (\<exists>F. \<forall>f\<ge>F. \<forall>ed w.
         executeNode f (sample_host [] []) plain_trigger line_map line_nodes ed w \<noteq> None)
   \<and> buildAdjacencyMap loop_nodes (Some island_edges) = Inr island_map
   \<and> (\<exists>F. \<forall>f\<ge>F. \<forall>ed w.
         executeNode f (sample_host [] []) plain_trigger island_map loop_nodes ed w \<noteq> None)
   \<and> buildAdjacencyMap loop_nodes (Some loop_edges) = Inr loop_map
   \<and> executeNode 1000 (sample_host [] []) plain_trigger loop_map loop_nodes [] sample_world
       = None"
proof -
  have "acyclic ({} :: (string \<times> string) set)"
    by (simp add: acyclic_def)
  then have 1: "acyclic (edge_rel line_edges)"
    by (simp add: edge_rel_def edge_pairs_def line_edges_def link_def)
  have 2: "\<exists>F. \<forall>f\<ge>F. \<forall>ed w.
         executeNode f (sample_host [] []) plain_trigger line_map line_nodes ed w \<noteq> None"
    using no_cycle_detection [where es = line_edges and nodes = line_nodes and adj = line_map
        and h = "sample_host [] []" and n = plain_trigger, THEN conjunct1] 1 line_map_built
    by blast
  have "(plain_trigger, plain_trigger) \<notin> (calls island_map loop_nodes)\<^sup>+"
    using island_no_call by (auto dest: tranclD)
  then have free: "\<forall>x\<in>reached island_map loop_nodes plain_trigger.
                     (x, x) \<notin> (calls island_map loop_nodes)\<^sup>+"
    by (simp add: island_reached)
  have 3: "\<exists>F. \<forall>f\<ge>F. \<forall>ed w.
         executeNode f (sample_host [] []) plain_trigger island_map loop_nodes ed w \<noteq> None"
    by (rule no_cycle_detection [where nodes = loop_nodes and adj = island_map
        and h = "sample_host [] []" and n = plain_trigger, THEN conjunct2, THEN conjunct1,
        THEN mp, OF free])
  let ?a = "data_node ''a'' ''A''"
  have 4: "(plain_trigger, ?a) \<in> (calls loop_map loop_nodes)\<^sup>*"
    using loop_calls(1) by (rule r_into_rtrancl)
  have "(?a, data_node ''b'' ''B'') \<in> (calls loop_map loop_nodes)\<^sup>+"
    using loop_calls(2) by (rule r_into_trancl)
  then have 5: "(?a, ?a) \<in> (calls loop_map loop_nodes)\<^sup>+"
    using loop_calls(3) by (rule trancl_into_trancl)
  have 6: "\<forall>x\<in>reached loop_map loop_nodes plain_trigger. \<forall>ed0 w0. \<exists>env w1.
             dispatch (sample_host [] []) x ed0 w0 = (Inr env, w1)"
  proof (intro ballI allI)
    fix x ed0 w0
    assume "x \<in> reached loop_map loop_nodes plain_trigger"
    with reached_subset [of loop_map loop_nodes plain_trigger]
    have "x \<in> insert plain_trigger (set loop_nodes)" by blast
    then have "node_type x \<in> {''trigger'', ''data'', ''action''}"
      by (auto simp: loop_nodes_def data_node_def sample_defs)
    then show "\<exists>env w1. dispatch (sample_host [] []) x ed0 w0 = (Inr env, w1)"
      by (rule dispatch_never_throws)
  qed
  from 4 5 6 have "(plain_trigger, ?a) \<in> (calls loop_map loop_nodes)\<^sup>*
       \<and> (?a, ?a) \<in> (calls loop_map loop_nodes)\<^sup>+
       \<and> (\<forall>x\<in>reached loop_map loop_nodes plain_trigger. \<forall>ed0 w0. \<exists>env w1.
             dispatch (sample_host [] []) x ed0 w0 = (Inr env, w1))"
    by (intro conjI)
  then have 7: "executeNode 1000 (sample_host [] []) plain_trigger loop_map loop_nodes []
             sample_world = None"
    by (rule no_cycle_detection [where nodes = loop_nodes and adj = loop_map
        and h = "sample_host [] []" and n = plain_trigger and m = ?a and f = 1000
        and ed = "[]" and w = sample_world, THEN conjunct2, THEN conjunct2, THEN conjunct2,
        THEN conjunct2, THEN conjunct1, THEN mp])
  from 1 line_map_built 2 island_map_built 3 loop_map_built 7 show ?thesis by (intro conjI)
qed

end
